theory Spec2Isabelle
  imports Main "HOL-Library.Sublist"
begin

section \<open>Python values, strings and errors\<close>

text \<open>
  The scripts are Python 3. Strings are modelled as \<^typ>\<open>string\<close>, a character
  standing for a code point below 256; the exceptions that the scripts catch or let
  escape as the datatype \<open>py_error\<close>, and a function that may raise as a function into
  \<open>py_error + 'a\<close> (\<open>Inl\<close> is the raise).
\<close>

datatype py_error =
  FileNotFoundError | PermissionError | NotADirectoryError | ValueError | IndexError | TypeError
| OverflowError

text \<open>
  The decimal digits (the characters that \<open>\d\<close> matches and that \<open>int\<close> reads), the
  letters \<open>[a-zA-Z]\<close>, and \<open>str.upper\<close> and \<open>str.lower\<close> on ASCII letters.
\<close>

definition is_digit :: "char \<Rightarrow> bool" where
  "is_digit c \<longleftrightarrow> 48 \<le> (of_char c :: nat) \<and> (of_char c :: nat) \<le> 57"

definition is_upper :: "char \<Rightarrow> bool" where
  "is_upper c \<longleftrightarrow> 65 \<le> (of_char c :: nat) \<and> (of_char c :: nat) \<le> 90"

definition is_lower :: "char \<Rightarrow> bool" where
  "is_lower c \<longleftrightarrow> 97 \<le> (of_char c :: nat) \<and> (of_char c :: nat) \<le> 122"

definition is_alpha :: "char \<Rightarrow> bool" where
  "is_alpha c \<longleftrightarrow> is_upper c \<or> is_lower c"

definition char_upper :: "char \<Rightarrow> char" where
  "char_upper c = (if is_lower c then char_of ((of_char c :: nat) - 32) else c)"

definition char_lower :: "char \<Rightarrow> char" where
  "char_lower c = (if is_upper c then char_of ((of_char c :: nat) + 32) else c)"

text \<open>
  \<open>s.isdigit()\<close>: \<open>s\<close> is not empty and each of its characters is a digit. Below code
  point 256 these are the decimal digits and the superscripts two, three and one (code
  points 178, 179 and 185), which are no decimal digits.
\<close>

definition is_superscript_digit :: "char \<Rightarrow> bool" where
  "is_superscript_digit c \<longleftrightarrow>
     (of_char c :: nat) = 178 \<or> (of_char c :: nat) = 179 \<or> (of_char c :: nat) = 185"

definition str_isdigit :: "string \<Rightarrow> bool" where
  "str_isdigit s \<longleftrightarrow> s \<noteq> [] \<and> list_all (\<lambda>c. is_digit c \<or> is_superscript_digit c) s"

definition str_upper :: "string \<Rightarrow> string" where
  "str_upper s = map char_upper s"

definition str_lower :: "string \<Rightarrow> string" where
  "str_lower s = map char_lower s"

text \<open>\<open>sub in s\<close>: \<open>sub\<close> occurs in \<open>s\<close> as a contiguous substring.\<close>

fun str_contains :: "string \<Rightarrow> string \<Rightarrow> bool" where
  "str_contains sub [] = (sub = [])"
| "str_contains sub (c # cs) = (prefix sub (c # cs) \<or> str_contains sub cs)"

text \<open>\<open>s.split(d)\<close> for a one-character delimiter: always at least one field.\<close>

fun str_split :: "char \<Rightarrow> string \<Rightarrow> string list" where
  "str_split d [] = [[]]"
| "str_split d (c # cs) =
     (if c = d then [] # str_split d cs
      else (case str_split d cs of [] \<Rightarrow> [[c]] | w # ws \<Rightarrow> (c # w) # ws))"

text \<open>
  \<open>int(s)\<close> on a string of decimal digits; any other string is a \<open>ValueError\<close>, and
  so is a string of more than 4300 digits, the default limit of \<open>int\<close> on the length of
  a decimal string. (Python's \<open>int\<close> also accepts a sign, blanks around the number and
  single underscores between digits; the scripts only ever pass strings for which
  \<open>str.isdigit\<close> holds or which \<open>\d+\<close> captured.)
\<close>

definition digits_value :: "string \<Rightarrow> nat" where
  "digits_value s = foldl (\<lambda>acc c. 10 * acc + ((of_char c :: nat) - 48)) 0 s"

definition int_max_str_digits :: nat where
  "int_max_str_digits = 4300"

definition py_int :: "string \<Rightarrow> py_error + int" where
  "py_int s =
     (if s \<noteq> [] \<and> list_all is_digit s \<and> length s \<le> int_max_str_digits
      then Inr (int (digits_value s)) else Inl ValueError)"

section \<open>Platforms and paths\<close>

text \<open>
  \<open>platform.system()\<close> is \<open>"Windows"\<close>, \<open>"Linux"\<close>, \<open>"Darwin"\<close> or something else.
  \<open>os.sep\<close> is the backslash on Windows and the slash elsewhere.
\<close>

datatype platform = Windows | Linux | Darwin | OtherOS

definition backslash :: char where
  "backslash = CHR 0x5C"

definition os_sep :: "platform \<Rightarrow> char" where
  "os_sep pf = (if pf = Windows then backslash else CHR ''/'')"

text \<open>\<open>posixpath.join(a, b)\<close>.\<close>

definition posix_join :: "string \<Rightarrow> string \<Rightarrow> string" where
  "posix_join a b =
     (if prefix ''/'' b then b
      else if a = [] \<or> last a = CHR ''/'' then a @ b
      else a @ CHR ''/'' # b)"

text \<open>
  \<open>ntpath.join(a, b)\<close> for paths with an optional drive letter (\<open>C:\<close>); UNC paths, which
  no script builds, are not modelled. \<open>nt_splitdrive\<close> is \<open>ntpath.splitdrive\<close> on such
  paths.
\<close>

definition nt_is_sep :: "char \<Rightarrow> bool" where
  "nt_is_sep c \<longleftrightarrow> c = backslash \<or> c = CHR ''/''"

definition nt_splitdrive :: "string \<Rightarrow> string \<times> string" where
  "nt_splitdrive p =
     (if 2 \<le> length p \<and> p ! 1 = CHR '':'' then (take 2 p, drop 2 p) else ([], p))"

definition nt_join :: "string \<Rightarrow> string \<Rightarrow> string" where
  "nt_join a b =
     (let (rd, rp) = nt_splitdrive a; (pd, pp) = nt_splitdrive b in
      if pp \<noteq> [] \<and> nt_is_sep (hd pp) then
        (if pd \<noteq> [] \<or> rd = [] then pd @ pp else rd @ pp)
      else if pd \<noteq> [] \<and> pd \<noteq> rd \<and> str_lower pd \<noteq> str_lower rd then pd @ pp
      else
        (let d = (if pd \<noteq> [] \<and> pd \<noteq> rd then pd else rd);
             rp' = (if rp \<noteq> [] \<and> \<not> nt_is_sep (last rp) then rp @ [backslash] else rp)
         in d @ rp' @ pp))"

definition os_path_join :: "platform \<Rightarrow> string \<Rightarrow> string \<Rightarrow> string" where
  "os_path_join pf a b = (if pf = Windows then nt_join a b else posix_join a b)"

text \<open>\<open>os.path.dirname\<close>: \<open>posixpath.dirname\<close>, and \<open>ntpath.dirname\<close> on drive-letter paths.\<close>

definition rstrip :: "(char \<Rightarrow> bool) \<Rightarrow> string \<Rightarrow> string" where
  "rstrip P s = rev (dropWhile P (rev s))"

definition posix_dirname :: "string \<Rightarrow> string" where
  "posix_dirname p =
     (let head = rstrip (\<lambda>c. c \<noteq> CHR ''/'') p in
      if head \<noteq> [] \<and> head \<noteq> replicate (length head) (CHR ''/'')
      then rstrip (\<lambda>c. c = CHR ''/'') head else head)"

definition nt_dirname :: "string \<Rightarrow> string" where
  "nt_dirname p =
     (let (d, r) = nt_splitdrive p;
          head = rstrip (\<lambda>c. \<not> nt_is_sep c) r;
          stripped = rstrip nt_is_sep head
      in d @ (if stripped = [] then head else stripped))"

definition os_path_dirname :: "platform \<Rightarrow> string \<Rightarrow> string" where
  "os_path_dirname pf p = (if pf = Windows then nt_dirname p else posix_dirname p)"

section \<open>Marker file names (autoPath\_v1.0.py)\<close>

text \<open>
  \<open>re.search(r'_setfromcsv_([a-zA-Z]\d+)_', file)\<close>: the leftmost position at which the
  literal \<open>_setfromcsv_\<close>, one letter, a maximal non-empty run of digits and an underscore
  follow each other; the result is group 1, the letter and the digits. (The run of digits
  has to be maximal: the character after a shorter run is a digit, not the underscore.)
\<close>

definition re_match_here :: "string \<Rightarrow> string option" where
  "re_match_here s =
     (if prefix ''_setfromcsv_'' s then
        (case drop 12 s of
           [] \<Rightarrow> None
         | c # r \<Rightarrow>
             if is_alpha c \<and> takeWhile is_digit r \<noteq> [] \<and> prefix ''_'' (dropWhile is_digit r)
             then Some (c # takeWhile is_digit r) else None)
      else None)"

fun re_search :: "string \<Rightarrow> string option" where
  "re_search [] = re_match_here []"
| "re_search (c # cs) =
     (case re_match_here (c # cs) of Some g \<Rightarrow> Some g | None \<Rightarrow> re_search cs)"

text \<open>\<open>target_files\<close> of \<open>choose_path\<close>.\<close>

definition target_files :: "string list" where
  "target_files = [''_setpath_'', ''_setthispath_'', ''_setfromcsv_'']"

text \<open>
  The inner loop \<open>for target_file in target_files\<close> for one file name: the first target
  that the file name matches, as the second component of the returned pair.
\<close>

fun check_targets :: "string \<Rightarrow> string list \<Rightarrow> string option" where
  "check_targets file [] = None"
| "check_targets file (t # ts) =
     (if t = ''_setfromcsv_'' then
        (case re_search file of
           Some g \<Rightarrow> Some (''_setfromcsv_'' @ g @ ''_'')
         | None \<Rightarrow> check_targets file ts)
      else if str_contains t file then Some t
      else check_targets file ts)"

text \<open>
  The outer loop \<open>for file in files\<close> in the directory \<open>root\<close>: the first file, in the
  order of the listing, that matches some target.
\<close>

fun check_files :: "platform \<Rightarrow> string \<Rightarrow> string list \<Rightarrow> string list \<Rightarrow> (string \<times> string) option" where
  "check_files pf root [] ts = None"
| "check_files pf root (f # fs) ts =
     (case check_targets f ts of
        Some t \<Rightarrow> Some (os_path_join pf root f, t)
      | None \<Rightarrow> check_files pf root fs ts)"

text \<open>
  The same two loops in autoSet\_path.py, where every target is tested with
  \<open>target_file in file\<close>.
\<close>

fun check_targets_plain :: "string \<Rightarrow> string list \<Rightarrow> string option" where
  "check_targets_plain file [] = None"
| "check_targets_plain file (t # ts) =
     (if str_contains t file then Some t else check_targets_plain file ts)"

fun check_files_plain :: "platform \<Rightarrow> string \<Rightarrow> string list \<Rightarrow> string list \<Rightarrow> (string \<times> string) option" where
  "check_files_plain pf root [] ts = None"
| "check_files_plain pf root (f # fs) ts =
     (case check_targets_plain f ts of
        Some t \<Rightarrow> Some (os_path_join pf root f, t)
      | None \<Rightarrow> check_files_plain pf root fs ts)"

section \<open>The environment\<close>

text \<open>
  A directory as \<open>os.walk\<close> meets it: its name, whether \<open>os.scandir\<close> can list it
  (\<open>False\<close>: the listing raises \<open>PermissionError\<close>), the names of its entries that are
  not directories and its subdirectories, both in the order of the listing.
\<close>

datatype fsdir =
  Dir (dname: string) (listable: bool) (dfiles: "string list") (dsubs: "fsdir list")

text \<open>
  A cell of the \<open>pandas\<close> table read with \<open>header=None\<close>: a string, an integer or a
  missing value (\<open>NaN\<close>); other floating point cells are not modelled. \<open>truthy\<close> is the
  truth value Python gives the cell in \<open>if chosen_path:\<close>.
\<close>

datatype pyval = PStr string | PInt int | PNaN

fun truthy :: "pyval \<Rightarrow> bool" where
  "truthy (PStr s) = (s \<noteq> [])"
| "truthy (PInt i) = (i \<noteq> 0)"
| "truthy PNaN = True"

text \<open>
  The table that \<open>pd.read_csv\<close> returns: its numbers of rows and of columns and the cell
  at a row and a column, both counted from 0.
\<close>

record table =
  nrows :: nat
  ncols :: nat
  cell_at :: "nat \<Rightarrow> nat \<Rightarrow> pyval"

text \<open>
  What the scripts ask of the operating system and of the libraries, as one record:
  \<open>platform.system()\<close>, \<open>os.path.exists\<close>, \<open>os.path.isdir\<close>, \<open>os.listdir\<close>, the
  directory tree that \<open>os.walk(path)\<close> traverses (\<open>None\<close>: the path cannot be listed at
  all), \<open>pd.read_csv(file, header=None)\<close> and the path normalisation \<open>expand\<close> of
  simple\_path\_manager.py (\<open>os.path.normpath\<close>, \<open>expanduser\<close> and \<open>expandvars\<close>).
\<close>

record env =
  platform_system :: platform
  os_path_exists :: "string \<Rightarrow> bool"
  os_path_isdir :: "string \<Rightarrow> bool"
  os_listdir :: "string \<Rightarrow> py_error + string list"
  walk_tree :: "string \<Rightarrow> fsdir option"
  pd_read_csv :: "string \<Rightarrow> py_error + table"
  expand :: "string \<Rightarrow> string"

text \<open>What the scripts print, one constructor per \<open>print\<close> statement of autoPath\_v1.0.py.\<close>

datatype event =
  Searching string
| SearchingSystem string
| Found string string
| ErrorDetermining string string
| PermissionDenied string
| ErrorReading string string

section \<open>The directory walk\<close>

text \<open>
  Both scanners have the shape
  \<^verbatim>\<open>
  for root, dirs, files in os.walk(drive):
      depth = root[len(drive):].count(os.sep)
      if <depth over the limit>:
          dirs[:] = []
          continue
      for file in files: ... return os.path.join(root, file), target_file
  \<close>
  \<open>os.walk(top, onerror=h)\<close> (top-down) lists \<open>top\<close>. When the listing fails, \<open>h\<close> is
  called if there is one, and if \<open>h\<close> does not raise, or there is none (the default
  \<open>onerror=None\<close>), the walk goes on and nothing is yielded for that directory.
  Otherwise it yields \<open>(top, dirs, files)\<close> and then walks \<open>os.path.join(top, d)\<close> for
  every \<open>d\<close> left in \<open>dirs\<close>, in order. \<open>walk_dir\<close> is the loop over this generator:
  \<open>prune root\<close> is the test on the depth and \<open>check root files\<close> the search among the
  files. It returns the directories that the loop body ran on, each marked as pruned
  (the \<open>continue\<close> branch) or examined (its files were searched), and how the loop
  ended: with the value returned from inside it (\<open>Done None\<close> when the generator was
  exhausted), or with the \<open>PermissionError\<close> of a listing leaving the generator
  (\<open>Denied\<close>), which only a raising handler brings about.
\<close>

datatype walk_onerror = No_handler | Raising_handler

datatype 'a walked = Denied | Done 'a

datatype visit = Examined string | Pruned string

fun visit_path :: "visit \<Rightarrow> string" where
  "visit_path (Examined p) = p"
| "visit_path (Pruned p) = p"

fun is_examined :: "visit \<Rightarrow> bool" where
  "is_examined (Examined p) = True"
| "is_examined (Pruned p) = False"

fun walk_dir :: "platform \<Rightarrow> walk_onerror \<Rightarrow> (string \<Rightarrow> bool)
    \<Rightarrow> (string \<Rightarrow> string list \<Rightarrow> (string \<times> string) option)
    \<Rightarrow> string \<Rightarrow> fsdir \<Rightarrow> visit list \<times> (string \<times> string) option walked"
and walk_subs :: "platform \<Rightarrow> walk_onerror \<Rightarrow> (string \<Rightarrow> bool)
    \<Rightarrow> (string \<Rightarrow> string list \<Rightarrow> (string \<times> string) option)
    \<Rightarrow> string \<Rightarrow> fsdir list \<Rightarrow> visit list \<times> (string \<times> string) option walked" where
  "walk_dir pf onerror prune check root (Dir n ok files subs) =
     (if \<not> ok then
        (case onerror of No_handler \<Rightarrow> ([], Done None) | Raising_handler \<Rightarrow> ([], Denied))
      else if prune root then ([Pruned root], Done None)
      else (case check root files of
              Some m \<Rightarrow> ([Examined root], Done (Some m))
            | None \<Rightarrow>
                (case walk_subs pf onerror prune check root subs of
                   (vs, r) \<Rightarrow> (Examined root # vs, r))))"
| "walk_subs pf onerror prune check root [] = ([], Done None)"
| "walk_subs pf onerror prune check root (d # ds) =
     (case walk_dir pf onerror prune check (os_path_join pf root (dname d)) d of
        (vs, Done None) \<Rightarrow>
          (case walk_subs pf onerror prune check root ds of
             (ws, r) \<Rightarrow> (vs @ ws, r))
      | (vs, r) \<Rightarrow> (vs, r))"

text \<open>\<open>root[len(drive):].count(os.sep)\<close>.\<close>

definition depth_of :: "platform \<Rightarrow> string \<Rightarrow> string \<Rightarrow> nat" where
  "depth_of pf drive root = count_list (drop (length drive) root) (os_sep pf)"

section \<open>autoPath\_v1.0.py\<close>

definition is_system_drive :: "platform \<Rightarrow> string \<Rightarrow> bool" where
  "is_system_drive pf drive =
     (if pf = Windows then str_lower drive = [CHR ''c'', CHR '':'', backslash]
      else if pf = Linux \<or> pf = Darwin then drive = ''/''
      else False)"

definition get_available_drives :: "env \<Rightarrow> string list" where
  "get_available_drives env =
     (if platform_system env = Windows then
        filter (os_path_exists env) (map (\<lambda>code. [char_of code, CHR '':'', backslash]) [65..<91::nat])
      else if platform_system env = Linux then [''/media'', ''/mnt'', ''/'']
      else if platform_system env = Darwin then [''/Volumes'', ''/'']
      else [])"

text \<open>
  What \<open>search_for_setpath_file\<close> prints, which directories its loop body ran on and
  what it returns (\<open>None\<close> for \<open>(None, None)\<close>). It calls \<open>os.walk(drive)\<close>, that is,
  without \<open>onerror\<close>; its \<open>except PermissionError\<close> clause prints a line and leads to
  \<open>return None, None\<close>.
\<close>

record scan_result =
  printed :: "event list"
  visited :: "visit list"
  found :: "(string \<times> string) option"

definition search_for_setpath_file :: "env \<Rightarrow> string \<Rightarrow> string list \<Rightarrow> int \<Rightarrow> scan_result" where
  "search_for_setpath_file env drive ts max_system_depth =
     (let pf = platform_system env in
      case walk_tree env drive of
        None \<Rightarrow> \<lparr>printed = [], visited = [], found = None\<rparr>
      | Some t \<Rightarrow>
          (case walk_dir pf No_handler
                  (\<lambda>root. is_system_drive pf drive \<and> max_system_depth \<le> int (depth_of pf drive root))
                  (\<lambda>root files. check_files pf root files ts) drive t of
             (vs, Done r) \<Rightarrow> \<lparr>printed = [], visited = vs, found = r\<rparr>
           | (vs, Denied) \<Rightarrow> \<lparr>printed = [PermissionDenied drive], visited = vs, found = None\<rparr>))"

text \<open>
  \<open>df.iat[row, col]\<close>. \<open>pandas\<close> takes the column first and then the row of that column
  (\<open>series = self._ixs(col, axis=1)\<close>, then \<open>series._values[index]\<close>). A negative
  position counts from the end; a position outside the table raises \<open>IndexError\<close>; a row
  position that does not fit into 64 bits raises \<open>OverflowError\<close>. (A column position is
  \<open>ord\<close> of one character minus 65 and always fits.)
\<close>

definition df_iat :: "table \<Rightarrow> int \<Rightarrow> int \<Rightarrow> py_error + pyval" where
  "df_iat df row col =
     (let c = (if col < 0 then col + int (ncols df) else col) in
      if \<not> (0 \<le> c \<and> c < int (ncols df)) then Inl IndexError
      else if row < - (2 ^ 63) \<or> 2 ^ 63 \<le> row then Inl OverflowError
      else
        (let r = (if row < 0 then row + int (nrows df) else row) in
         if 0 \<le> r \<and> r < int (nrows df) then Inr (cell_at df (nat r) (nat c))
         else Inl IndexError))"

text \<open>\<open>row, col = int(cell_reference[1:]) - 1, ord(cell_reference[0].upper()) - ord('A')\<close>.\<close>

definition cell_address :: "string \<Rightarrow> py_error + int \<times> int" where
  "cell_address cell_reference =
     (case py_int (drop 1 cell_reference) of
        Inl e \<Rightarrow> Inl e
      | Inr n \<Rightarrow>
          (case cell_reference of
             [] \<Rightarrow> Inl IndexError
           | c # _ \<Rightarrow> Inr (n - 1, int (of_char (char_upper c)) - 65)))"

definition read_path_from_csv :: "env \<Rightarrow> string \<Rightarrow> string \<Rightarrow> event list \<times> (py_error + pyval option)" where
  "read_path_from_csv env csv_file cell_reference =
     (let body =
        (case pd_read_csv env csv_file of
           Inl e \<Rightarrow> Inl e
         | Inr df \<Rightarrow>
             (case cell_address cell_reference of
                Inl e \<Rightarrow> Inl e
              | Inr (row, col) \<Rightarrow> df_iat df row col))
      in case body of
           Inr v \<Rightarrow> ([], Inr (Some v))
         | Inl e \<Rightarrow>
             if e = FileNotFoundError \<or> e = ValueError \<or> e = IndexError
             then ([ErrorReading csv_file cell_reference], Inr None)
             else ([], Inl e))"

definition set_path_based_on_file :: "env \<Rightarrow> string \<Rightarrow> string \<Rightarrow> string \<Rightarrow> string
    \<Rightarrow> event list \<times> (py_error + pyval option)" where
  "set_path_based_on_file env drive file_path target_file csv_file =
     (if target_file = ''_setpath_'' then ([], Inr (Some (PStr drive)))
      else if target_file = ''_setthispath_'' then
        ([], Inr (Some (PStr (os_path_dirname (platform_system env) file_path))))
      else if prefix ''_setfromcsv_'' target_file then
        (case str_split (CHR ''_'') target_file of
           _ # _ # cell # _ \<Rightarrow> read_path_from_csv env csv_file (str_upper cell)
         | _ \<Rightarrow> ([], Inl IndexError))
      else ([], Inr None))"

text \<open>
  One round of either loop of \<open>choose_path\<close> for the drive \<open>drive\<close>, \<open>announce\<close> being
  the line printed first. The round ends in a raise (\<open>Inl\<close>), in \<open>return chosen_path\<close>
  (\<open>Inr (Some v)\<close>) or by falling through to the next round (\<open>Inr None\<close>).
\<close>

definition try_drive :: "env \<Rightarrow> string \<Rightarrow> event \<Rightarrow> string \<Rightarrow> event list \<times> (py_error + pyval option)" where
  "try_drive env csv_file announce drive =
     (let r = search_for_setpath_file env drive target_files 2 in
      case found r of
        None \<Rightarrow> (announce # printed r, Inr None)
      | Some (file_path, target_file) \<Rightarrow>
          if file_path = [] then (announce # printed r, Inr None)
          else
            (case set_path_based_on_file env drive file_path target_file csv_file of
               (evs, Inl e) \<Rightarrow> (announce # printed r @ Found target_file file_path # evs, Inl e)
             | (evs, Inr None) \<Rightarrow>
                 (announce # printed r @ Found target_file file_path # evs
                    @ [ErrorDetermining file_path target_file], Inr None)
             | (evs, Inr (Some v)) \<Rightarrow>
                 if truthy v then (announce # printed r @ Found target_file file_path # evs, Inr (Some v))
                 else (announce # printed r @ Found target_file file_path # evs
                         @ [ErrorDetermining file_path target_file], Inr None)))"

fun search_drives :: "env \<Rightarrow> string \<Rightarrow> string list \<Rightarrow> event list \<times> (py_error + pyval option)" where
  "search_drives env csv_file [] = ([], Inr None)"
| "search_drives env csv_file (d # ds) =
     (case try_drive env csv_file (Searching d) d of
        (evs, Inr None) \<Rightarrow>
          (case search_drives env csv_file ds of (evs', out) \<Rightarrow> (evs @ evs', out))
      | (evs, out) \<Rightarrow> (evs, out))"

text \<open>
  \<open>choose_path\<close>: what it prints and how it ends (\<open>Inr None\<close>: \<open>return None\<close>). The
  system drive is the last drive of the enumeration that \<open>is_system_drive\<close> accepts.
\<close>

definition system_drive_of :: "env \<Rightarrow> string option" where
  "system_drive_of env =
     (case filter (is_system_drive (platform_system env)) (get_available_drives env) of
        [] \<Rightarrow> None
      | d # ds \<Rightarrow> Some (last (d # ds)))"

definition non_system_drives :: "env \<Rightarrow> string list" where
  "non_system_drives env =
     filter (\<lambda>d. \<not> is_system_drive (platform_system env) d) (get_available_drives env)"

definition choose_path :: "env \<Rightarrow> string \<Rightarrow> event list \<times> (py_error + pyval option)" where
  "choose_path env csv_file =
     (case search_drives env csv_file (non_system_drives env) of
        (evs, Inr None) \<Rightarrow>
          (case system_drive_of env of
             None \<Rightarrow> (evs, Inr None)
           | Some sd \<Rightarrow>
               if sd = [] then (evs, Inr None)
               else (case try_drive env csv_file (SearchingSystem sd) sd of
                       (evs', out) \<Rightarrow> (evs @ evs', out)))
      | (evs, out) \<Rightarrow> (evs, out))"

section \<open>autoPath\_v1.py\<close>

text \<open>
  autoPath\_v1.py has the same \<open>get_available_drives\<close>, \<open>is_system_drive\<close>,
  \<open>search_for_setpath_file\<close>, \<open>set_path_based_on_file\<close> and \<open>read_path_from_csv\<close>. Its
  \<open>choose_path\<close> is one loop over the drives in the order of the enumeration.
\<close>

definition choose_path_v1 :: "env \<Rightarrow> string \<Rightarrow> event list \<times> (py_error + pyval option)" where
  "choose_path_v1 env csv_file = search_drives env csv_file (get_available_drives env)"

section \<open>autoSet\_path.py\<close>

text \<open>
  \<open>search_for_setpath_file(drive, target_files, max_depth=3)\<close> of autoSet\_path.py: every
  drive is limited, the test is \<open>depth > max_depth\<close>, and the targets are plain substrings.
\<close>

definition search_for_setpath_file_autoSet :: "env \<Rightarrow> string \<Rightarrow> string list \<Rightarrow> int \<Rightarrow> scan_result" where
  "search_for_setpath_file_autoSet env drive ts max_depth =
     (let pf = platform_system env in
      case walk_tree env drive of
        None \<Rightarrow> \<lparr>printed = [], visited = [], found = None\<rparr>
      | Some t \<Rightarrow>
          (case walk_dir pf No_handler
                  (\<lambda>root. max_depth < int (depth_of pf drive root))
                  (\<lambda>root files. check_files_plain pf root files ts) drive t of
             (vs, Done r) \<Rightarrow> \<lparr>printed = [], visited = vs, found = r\<rparr>
           | (vs, Denied) \<Rightarrow> \<lparr>printed = [PermissionDenied drive], visited = vs, found = None\<rparr>))"

section \<open>path\_setter.py\<close>

text \<open>
  \<open>get_external_drives\<close> of path\_setter.py (and of subpathsetter.py, which has the same
  text): \<open>os.listdir\<close> is called with no handler around it, so what it raises leaves the
  function.
\<close>

definition list_mount :: "env \<Rightarrow> string \<Rightarrow> py_error + string list" where
  "list_mount env mount =
     (if os_path_exists env mount then
        (case os_listdir env mount of
           Inl e \<Rightarrow> Inl e
         | Inr entries \<Rightarrow> Inr (map (os_path_join (platform_system env) mount) entries))
      else Inr [])"

definition get_external_drives_path_setter :: "env \<Rightarrow> py_error + string list" where
  "get_external_drives_path_setter env =
     (if platform_system env = Windows then
        Inr (filter (os_path_exists env)
               (map (\<lambda>code. [char_of code, CHR '':'', backslash]) [65..<91::nat]))
      else if platform_system env = Linux then
        (case list_mount env ''/media'' of
           Inl e \<Rightarrow> Inl e
         | Inr media \<Rightarrow>
             (case list_mount env ''/mnt'' of
                Inl e \<Rightarrow> Inl e
              | Inr mnt \<Rightarrow> Inr (media @ mnt)))
      else if platform_system env = Darwin then list_mount env ''/Volumes''
      else Inr [])"

section \<open>simple\_path\_manager.py\<close>

text \<open>
  \<open>get_external_drives\<close>: a \<open>PermissionError\<close> from \<open>os.listdir(root)\<close> skips that mount
  point (\<open>continue\<close>); any other exception ends the function with the drives collected so
  far (\<open>except Exception: pass\<close>).
\<close>

fun scan_mounts :: "env \<Rightarrow> string list \<Rightarrow> string list" where
  "scan_mounts env [] = []"
| "scan_mounts env (root # roots) =
     (if os_path_exists env root then
        (case os_listdir env root of
           Inl e \<Rightarrow> if e = PermissionError then scan_mounts env roots else []
         | Inr entries \<Rightarrow>
             filter (os_path_isdir env) (map (os_path_join (platform_system env) root) entries)
               @ scan_mounts env roots)
      else scan_mounts env roots)"

definition get_external_drives :: "env \<Rightarrow> string list" where
  "get_external_drives env =
     (if platform_system env = Windows then
        filter (os_path_isdir env)
          (map (\<lambda>code. [char_of code, CHR '':'', os_sep (platform_system env)]) [67..<91::nat])
      else scan_mounts env [''/media'', ''/mnt'', ''/Volumes''])"

text \<open>
  The file \<open>recent.json\<close>: absent, unreadable (\<open>open\<close> or \<open>json.load\<close> raises), holding
  something that is not a list, or holding a list whose elements are strings or other
  JSON values. An element that is not a string makes \<open>expand\<close> raise, and \<open>load_recent\<close>
  returns the empty list.
\<close>

datatype json = JStr string | JOther

datatype recent_file = NoFile | Unreadable | NotAList | RecentList "json list"

fun json_strings :: "json list \<Rightarrow> string list option" where
  "json_strings [] = Some []"
| "json_strings (JStr s # js) = map_option (\<lambda>ss. s # ss) (json_strings js)"
| "json_strings (JOther # js) = None"

fun load_recent :: "env \<Rightarrow> recent_file \<Rightarrow> string list" where
  "load_recent env NoFile = []"
| "load_recent env Unreadable = []"
| "load_recent env NotAList = []"
| "load_recent env (RecentList data) =
     (case json_strings data of
        None \<Rightarrow> []
      | Some ps \<Rightarrow> map (expand env) (filter (\<lambda>p. os_path_isdir env (expand env p)) ps))"

text \<open>\<open>xs[:n]\<close>.\<close>

definition slice_to :: "int \<Rightarrow> 'a list \<Rightarrow> 'a list" where
  "slice_to n xs = (if 0 \<le> n then take (nat n) xs else take (length xs - nat (- n)) xs)"

text \<open>\<open>save_recent\<close>: the list \<open>new\<close> that it writes to \<open>recent.json\<close>.\<close>

definition save_recent :: "env \<Rightarrow> recent_file \<Rightarrow> string \<Rightarrow> int \<Rightarrow> string list" where
  "save_recent env rf path max_items =
     (let path' = expand env path;
          items = load_recent env rf;
          new = path' # filter (\<lambda>p. p \<noteq> path') items
      in slice_to max_items new)"

text \<open>
  \<open>navigate_folder\<close>. \<open>navigate_step\<close> is one round of its loop for the answer \<open>choice\<close>
  that \<open>present_menu\<close> returned (stripped and in lower case); \<open>history\<close> is a stack whose
  top is the last element. A round ends the function with the chosen folder (and the list
  written to \<open>recent.json\<close>), ends it with \<open>None\<close>, leads to the next round, or ends the
  function with the exception that \<open>int(choice)\<close> raises, which nothing catches.
  Clearing the screen, the menu text and the pause after a wrong answer are left out.
\<close>

definition list_subfolders :: "env \<Rightarrow> string \<Rightarrow> string list" where
  "list_subfolders env path =
     (case os_listdir env path of
        Inl e \<Rightarrow> []
      | Inr names \<Rightarrow>
          filter (\<lambda>d. os_path_isdir env (os_path_join (platform_system env) path d)) names)"

datatype nav =
  Browsing string "string list"
| UsedFolder string "string list"
| Cancelled
| Crashed py_error

definition navigate_step :: "env \<Rightarrow> recent_file \<Rightarrow> string \<Rightarrow> string list \<Rightarrow> string \<Rightarrow> nav" where
  "navigate_step env rf path history choice =
     (let subs = list_subfolders env path in
      if choice = ''q'' then Cancelled
      else if choice = ''b'' \<and> history \<noteq> [] then Browsing (last history) (butlast history)
      else if str_isdigit choice then
        (case py_int choice of
           Inl e \<Rightarrow> Crashed e
         | Inr idx \<Rightarrow>
             if idx = 1 then UsedFolder path (save_recent env rf path 5)
             else
               (let sel_index = idx - 2 in
                if 0 \<le> sel_index \<and> sel_index < int (length subs)
                then Browsing (os_path_join (platform_system env) path (subs ! nat sel_index))
                       (history @ [path])
                else Browsing path history))
      else Browsing path history)"

fun navigate_loop :: "env \<Rightarrow> recent_file \<Rightarrow> string \<Rightarrow> string list \<Rightarrow> string list \<Rightarrow> nav" where
  "navigate_loop env rf path history [] = Browsing path history"
| "navigate_loop env rf path history (choice # choices) =
     (case navigate_step env rf path history choice of
        Browsing path' history' \<Rightarrow> navigate_loop env rf path' history' choices
      | UsedFolder p new \<Rightarrow> UsedFolder p new
      | Cancelled \<Rightarrow> Cancelled
      | Crashed e \<Rightarrow> Crashed e)"

definition navigate_folder :: "env \<Rightarrow> recent_file \<Rightarrow> string \<Rightarrow> string list \<Rightarrow> nav" where
  "navigate_folder env rf start_path choices = navigate_loop env rf (expand env start_path) [] choices"

section \<open>Describing fixtures and runs\<close>

text \<open>
  A name that a directory listing can return: not empty and without a path separator
  (on Windows also without a colon). A tree is well formed when all its subdirectories
  have such names.
\<close>

definition wf_name :: "platform \<Rightarrow> string \<Rightarrow> bool" where
  "wf_name pf n \<longleftrightarrow>
     n \<noteq> [] \<and> list_all (\<lambda>c. c \<noteq> CHR ''/'' \<and> (pf \<noteq> Windows \<or> (c \<noteq> backslash \<and> c \<noteq> CHR '':''))) n"

fun wf_tree :: "platform \<Rightarrow> fsdir \<Rightarrow> bool"
and wf_subs :: "platform \<Rightarrow> fsdir list \<Rightarrow> bool" where
  "wf_tree pf (Dir n ok files subs) = wf_subs pf subs"
| "wf_subs pf [] = True"
| "wf_subs pf (d # ds) = (wf_name pf (dname d) \<and> wf_tree pf d \<and> wf_subs pf ds)"

text \<open>
  A marker file is a file name that matches one of the three targets. \<open>marker_levels t\<close>
  lists, for every directory of \<open>t\<close> that holds a marker file, how many levels it lies
  below the root of \<open>t\<close>.
\<close>

definition is_marker :: "string \<Rightarrow> bool" where
  "is_marker f \<longleftrightarrow> check_targets f target_files \<noteq> None"

fun marker_levels :: "fsdir \<Rightarrow> nat list"
and marker_levels_subs :: "fsdir list \<Rightarrow> nat list" where
  "marker_levels (Dir n ok files subs) =
     (if list_ex is_marker files then [0] else []) @ map Suc (marker_levels_subs subs)"
| "marker_levels_subs [] = []"
| "marker_levels_subs (d # ds) = marker_levels d @ marker_levels_subs ds"

text \<open>
  \<open>within pf drive prune B v\<close>: the visited directory lies at most \<open>B\<close> separators below
  the drive, and if its files were examined the depth test did not apply to it.
\<close>

definition within :: "platform \<Rightarrow> string \<Rightarrow> (string \<Rightarrow> bool) \<Rightarrow> int \<Rightarrow> visit \<Rightarrow> bool" where
  "within pf drive prune B v \<longleftrightarrow>
     int (depth_of pf drive (visit_path v)) \<le> B \<and> (is_examined v \<longrightarrow> \<not> prune (visit_path v))"

text \<open>A character that ends a path component on the platform.\<close>

definition is_sep :: "platform \<Rightarrow> char \<Rightarrow> bool" where
  "is_sep pf c \<longleftrightarrow> c = CHR ''/'' \<or> (pf = Windows \<and> c = backslash)"

text \<open>The drives that \<open>choose_path\<close> announced a search of, in order.\<close>

fun scanned :: "event list \<Rightarrow> string list" where
  "scanned [] = []"
| "scanned (Searching d # evs) = d # scanned evs"
| "scanned (SearchingSystem d # evs) = d # scanned evs"
| "scanned (e # evs) = scanned evs"

text \<open>
  The drives in the order in which \<open>choose_path\<close> takes them, and the drives whose round
  ends \<open>choose_path\<close>: a file was found and its conversion raised or gave a value that
  Python counts as true.
\<close>

definition search_order :: "env \<Rightarrow> string list" where
  "search_order env =
     non_system_drives env @ (case system_drive_of env of None \<Rightarrow> [] | Some sd \<Rightarrow> [sd])"

definition settles :: "env \<Rightarrow> string \<Rightarrow> string \<Rightarrow> bool" where
  "settles env csv_file drive =
     (case found (search_for_setpath_file env drive target_files 2) of
        None \<Rightarrow> False
      | Some (file_path, target_file) \<Rightarrow>
          file_path \<noteq> [] \<and>
          (case snd (set_path_based_on_file env drive file_path target_file csv_file) of
             Inl e \<Rightarrow> True
           | Inr None \<Rightarrow> False
           | Inr (Some v) \<Rightarrow> truthy v))"

text \<open>The conversion of what the search of a drive finds (\<open>None\<close> when it finds nothing).\<close>

definition conversion_of :: "env \<Rightarrow> string \<Rightarrow> string \<Rightarrow> py_error + pyval option" where
  "conversion_of env csv_file drive =
     (case found (search_for_setpath_file env drive target_files 2) of
        None \<Rightarrow> Inr None
      | Some (file_path, target_file) \<Rightarrow>
          snd (set_path_based_on_file env drive file_path target_file csv_file))"

text \<open>The decimal numeral of a number, as \<open>str(n)\<close> writes it.\<close>

fun decimal :: "nat \<Rightarrow> string" where
  "decimal n =
     (if n < 10 then [char_of (48 + n)] else decimal (n div 10) @ [char_of (48 + n mod 10)])"

text \<open>
  A Linux fixture: the trees that \<open>os.walk\<close> finds, the tables that \<open>pd.read_csv\<close> reads,
  the existing directories and the results of \<open>os.listdir\<close>; \<open>expand\<close> leaves the paths
  of the fixtures as they are.
\<close>

definition linux_env :: "(string \<times> fsdir) list \<Rightarrow> (string \<times> table) list \<Rightarrow> string list
    \<Rightarrow> (string \<times> (py_error + string list)) list \<Rightarrow> env" where
  "linux_env trees tables dirs listings =
     \<lparr>platform_system = Linux,
      os_path_exists = (\<lambda>p. p \<in> set dirs),
      os_path_isdir = (\<lambda>p. p \<in> set dirs),
      os_listdir = (\<lambda>p. case map_of listings p of None \<Rightarrow> Inl FileNotFoundError | Some r \<Rightarrow> r),
      walk_tree = map_of trees,
      pd_read_csv = (\<lambda>f. case map_of tables f of None \<Rightarrow> Inl FileNotFoundError | Some t \<Rightarrow> Inr t),
      expand = (\<lambda>p. p)\<rparr>"

section \<open>Fixtures\<close>

text \<open>One directory, \<open>/media\<close>, holding the files \<open>files\<close> in this order.\<close>

definition c1_listing_a :: "string list" where
  "c1_listing_a = [''_setpath_'', ''_setthispath_'']"

definition c1_listing_b :: "string list" where
  "c1_listing_b = [''_setthispath_'', ''_setpath_'']"

definition c1_env :: "string list \<Rightarrow> env" where
  "c1_env files = linux_env [(''/media'', Dir ''media'' True files [])] [] [''/'', ''/media''] []"

text \<open>
  The table of the examples: twenty rows and four columns, \<open>/data/archive\<close> in row 5 of
  column B and \<open>/data/twelve\<close> in row 12 of column C. The directory \<open>/media\<close> holds the
  marker \<open>_setfromcsv_b5_\<close>.
\<close>

definition c5_table :: table where
  "c5_table =
     \<lparr>nrows = 20, ncols = 4,
      cell_at = (\<lambda>r c. if r = 4 \<and> c = 1 then PStr ''/data/archive''
                        else if r = 11 \<and> c = 2 then PStr ''/data/twelve''
                        else PStr ''/data/other'')\<rparr>"

definition c5_env :: env where
  "c5_env = linux_env [(''/media'', Dir ''media'' True [''notes.txt'', ''_setfromcsv_b5_''] [])]
     [(''paths.csv'', c5_table)] [''/'', ''/media'', ''/data/archive''] []"

text \<open>
  Linux, where \<open>/media\<close> exists and cannot be listed and \<open>/mnt\<close> holds the directory
  \<open>usb\<close> and a file.
\<close>

definition c8_env :: env where
  "c8_env = linux_env [] [] [''/'', ''/media'', ''/mnt'', ''/mnt/usb'']
     [(''/media'', Inl PermissionError), (''/mnt'', Inr [''usb'', ''notes.txt''])]"

text \<open>A recent list of five existing directories; \<open>/f\<close> exists as well.\<close>

definition c9_recent :: recent_file where
  "c9_recent = RecentList (map JStr [''/a'', ''/b'', ''/c'', ''/d'', ''/e''])"

definition c9_env :: env where
  "c9_env = linux_env [] [] [''/a'', ''/b'', ''/c'', ''/d'', ''/e'', ''/f''] []"

text \<open>
  \<open>/data\<close> with one subfolder, whose name is \<open>$HOME\<close>. The variable \<open>HOME\<close> is
  \<open>/root\<close>, so \<open>expand\<close> turns \<open>/data/$HOME\<close> into \<open>/data/root\<close>.
\<close>

definition c9_home_env :: env where
  "c9_home_env =
     (linux_env [] [] [''/data'', ''/data/$HOME''] [(''/data'', Inr [''$HOME''])])
       \<lparr>expand := (\<lambda>p. if p = ''/data/$HOME'' then ''/data/root'' else p)\<rparr>"

text \<open>\<open>/home\<close> with the subfolders \<open>ann\<close> and \<open>bob\<close> and one file.\<close>

definition c10_env :: env where
  "c10_env = linux_env [] [] [''/home'', ''/home/ann'', ''/home/bob'']
     [(''/home'', Inr [''ann'', ''notes.txt'', ''bob''])]"

text \<open>
  \<open>/media\<close> holds a table marker and there is no table; \<open>/mnt\<close> is empty; the root
  directory holds \<open>_setpath_\<close>.
\<close>

definition c3_env :: env where
  "c3_env = linux_env
     [(''/media'', Dir ''media'' True [''_setfromcsv_a1_''] []),
      (''/mnt'', Dir ''mnt'' True [] []),
      (''/'', Dir [] True [''_setpath_''] [Dir ''media'' True [''_setfromcsv_a1_''] [], Dir ''mnt'' True [] []])]
     [] [''/'', ''/media'', ''/mnt''] []"

text \<open>
  \<open>/media\<close> holds a table marker, and cell A1 of the table names \<open>/data/gone\<close>, which
  does not exist.
\<close>

definition c6_env :: env where
  "c6_env = linux_env
     [(''/media'', Dir ''media'' True [''_setfromcsv_a1_''] [])]
     [(''paths.csv'', \<lparr>nrows = 1, ncols = 1, cell_at = (\<lambda>r c. PStr ''/data/gone'')\<rparr>)]
     [''/'', ''/media''] []"

text \<open>
  The system drive holds a marker three levels below its root and nowhere else;
  \<open>/media\<close> holds no marker and \<open>/mnt\<close> cannot be walked.
\<close>

definition c2_root :: fsdir where
  "c2_root =
     Dir [] True [''notes.txt'']
       [Dir ''home'' True []
          [Dir ''ann'' True []
             [Dir ''work'' True [''_setpath_''] []]],
        Dir ''media'' True [''readme.txt''] []]"

definition c2_media :: fsdir where
  "c2_media = Dir ''media'' True [''readme.txt''] []"

definition c2_env :: env where
  "c2_env = linux_env [(''/'', c2_root), (''/media'', c2_media)] []
     [''/'', ''/home'', ''/home/ann'', ''/home/ann/work'', ''/media''] []"

text \<open>
  Chains of directories: under \<open>/media\<close> down to \<open>a/b/c/d/e\<close> with a marker in \<open>d\<close>,
  under the root directory down to \<open>a/b/c/d\<close> with a marker in \<open>c\<close>.
\<close>

definition c4_media :: fsdir where
  "c4_media =
     Dir ''media'' True []
       [Dir ''a'' True []
          [Dir ''b'' True []
             [Dir ''c'' True []
                [Dir ''d'' True [''_setpath_'']
                   [Dir ''e'' True [] []]]]]]"

definition c4_root :: fsdir where
  "c4_root =
     Dir [] True []
       [Dir ''a'' True []
          [Dir ''b'' True []
             [Dir ''c'' True [''_setpath_'']
                [Dir ''d'' True [] []]]]]"

definition c4_env :: env where
  "c4_env = linux_env [(''/media'', c4_media), (''/'', c4_root)] [] [''/'', ''/media''] []"

text \<open>
  \<open>/media\<close> with the subdirectory \<open>locked\<close>, which cannot be listed, and its sibling
  \<open>usb\<close>, which holds a marker.
\<close>

definition c7_media :: fsdir where
  "c7_media =
     Dir ''media'' True [''readme.txt'']
       [Dir ''locked'' False [''_setthispath_''] [],
        Dir ''usb'' True [''_setpath_''] []]"

definition c7_env :: env where
  "c7_env = linux_env [(''/media'', c7_media)] [] [''/'', ''/media'', ''/media/locked'', ''/media/usb''] []"


section \<open>Matching within one directory\<close>

lemmas char_class_defs = is_alpha_def is_upper_def is_lower_def is_digit_def

lemma check_targets_target_files:
  "check_targets f target_files =
     (if str_contains ''_setpath_'' f then Some ''_setpath_''
      else if str_contains ''_setthispath_'' f then Some ''_setthispath_''
      else (case re_search f of
              Some g \<Rightarrow> Some (''_setfromcsv_'' @ g @ ''_'')
            | None \<Rightarrow> None))"
  by (simp add: target_files_def split: option.splits)

lemma check_files_skip:
  "\<forall>g\<in>set pre. check_targets g ts = None \<Longrightarrow>
   check_files pf root (pre @ fs) ts = check_files pf root fs ts"
  by (induction pre) simp_all

text \<open>
  C1 (as amended). Within one directory the match is decided by the first file of the
  listing that matches any target: when no file listed before \<open>f\<close> matches, the result
  is the match of \<open>f\<close>. The precedence \<open>_setpath_\<close>, then \<open>_setthispath_\<close>, then the
  \<open>_setfromcsv_\<close> pattern holds among the targets that match this one file name, not
  among the files of the directory.
\<close>

theorem C1_first_listed_file_wins:
  assumes "\<forall>g\<in>set pre. check_targets g target_files = None"
  shows "check_files pf root (pre @ f # post) target_files =
     (if str_contains ''_setpath_'' f then Some (os_path_join pf root f, ''_setpath_'')
      else if str_contains ''_setthispath_'' f then Some (os_path_join pf root f, ''_setthispath_'')
      else (case re_search f of
              Some g \<Rightarrow> Some (os_path_join pf root f, ''_setfromcsv_'' @ g @ ''_'')
            | None \<Rightarrow> check_files pf root post target_files))"
proof -
  have "check_files pf root (pre @ f # post) target_files = check_files pf root (f # post) target_files"
    using assms by (rule check_files_skip)
  then show ?thesis
    by (simp add: check_targets_target_files split: option.splits)
qed

lemma c1_readme: "check_targets ''readme.txt'' target_files = None"
  by (simp add: target_files_def re_match_here_def)

theorem C1_first_listed_file_wins_witness:
  "check_files Linux ''/media'' ([''readme.txt''] @ ''_setthispath_'' # [''_setpath_'']) target_files
     = Some (''/media/_setthispath_'', ''_setthispath_'')"
proof -
  have "\<forall>g\<in>set [''readme.txt'']. check_targets g target_files = None"
    by (simp add: c1_readme)
  from C1_first_listed_file_wins [OF this, of Linux "''/media''" "''_setthispath_''" "[''_setpath_'']"]
  show ?thesis
    by (simp add: os_path_join_def posix_join_def)
qed

text \<open>
  C1 (as stated) fails: the same two file names, \<open>_setpath_\<close> and \<open>_setthispath_\<close>, in one
  directory give the match \<open>_setpath_\<close> in one order of the listing and \<open>_setthispath_\<close>
  in the other.
\<close>

theorem C1_counterexample:
  "found (search_for_setpath_file (c1_env c1_listing_a) ''/media'' target_files 2)
     = Some (''/media/_setpath_'', ''_setpath_'') \<and>
   found (search_for_setpath_file (c1_env c1_listing_b) ''/media'' target_files 2)
     = Some (''/media/_setthispath_'', ''_setthispath_'') \<and>
   set c1_listing_a = set c1_listing_b"
  by (simp add: search_for_setpath_file_def c1_env_def linux_env_def c1_listing_a_def
      c1_listing_b_def target_files_def os_path_join_def posix_join_def is_system_drive_def
      insert_commute)

section \<open>The table address of a marker\<close>

lemma is_digit_not_underscore: "is_digit c \<Longrightarrow> c \<noteq> CHR ''_''"
  by (auto simp: is_digit_def)

lemma is_alpha_not_underscore: "is_alpha c \<Longrightarrow> c \<noteq> CHR ''_''"
  by (auto simp: char_class_defs)

lemma not_contains_in_digits:
  "list_all is_digit ds \<Longrightarrow> \<not> str_contains (CHR ''_'' # n # ns) (ds @ ''_'')"
  by (induction ds) (auto dest: is_digit_not_underscore)

lemma digits_then_underscore_cases:
  "list_all is_digit ds \<Longrightarrow> ds @ ''_'' = x # xs \<Longrightarrow> (is_digit x \<and> (\<exists>ds'. list_all is_digit ds' \<and> xs = ds' @ ''_'')) \<or> (x = CHR ''_'' \<and> xs = [])"
  by (cases ds) auto

lemma setpath_not_in_tableref:
  assumes "is_alpha c" "list_all is_digit ds"
  shows "\<not> str_contains ''_setpath_'' (''_setfromcsv_'' @ c # ds @ ''_'')"
proof -
  have "\<not> str_contains ''_setpath_'' (ds @ ''_'')"
    using assms(2) by (rule not_contains_in_digits)
  moreover have "\<not> prefix ''setpath_'' (c # ds @ ''_'')"
    using assms(2) by (cases ds) (auto dest: is_digit_not_underscore simp: is_digit_def)
  ultimately show ?thesis
    using assms(1) by (auto dest: is_alpha_not_underscore)
qed

lemma setthispath_not_in_tableref:
  assumes "is_alpha c" "list_all is_digit ds"
  shows "\<not> str_contains ''_setthispath_'' (''_setfromcsv_'' @ c # ds @ ''_'')"
proof -
  have "\<not> str_contains ''_setthispath_'' (ds @ ''_'')"
    using assms(2) by (rule not_contains_in_digits)
  moreover have "\<not> prefix ''setthispath_'' (c # ds @ ''_'')"
    using assms(2) by (cases ds) (auto dest: is_digit_not_underscore simp: is_digit_def)
  ultimately show ?thesis
    using assms(1) by (auto dest: is_alpha_not_underscore)
qed

lemma takeWhile_digits: "list_all is_digit ds \<Longrightarrow> takeWhile is_digit (ds @ ''_'' @ r) = ds"
  by (induction ds) (auto simp: is_digit_def)

lemma dropWhile_digits: "list_all is_digit ds \<Longrightarrow> dropWhile is_digit (ds @ ''_'' @ r) = ''_'' @ r"
  by (induction ds) (auto simp: is_digit_def)

lemma re_search_tableref:
  assumes "is_alpha c" "ds \<noteq> []" "list_all is_digit ds"
  shows "re_search (''_setfromcsv_'' @ c # ds @ ''_'') = Some (c # ds)"
  using assms takeWhile_digits [of ds "[]"] dropWhile_digits [of ds "[]"]
  by (simp add: re_match_here_def)

lemma str_split_field:
  "d \<notin> set xs \<Longrightarrow> str_split d (xs @ d # r) = xs # str_split d r"
  by (induction xs) auto

lemma str_split_tableref:
  assumes "is_alpha c" "list_all is_digit ds"
  shows "str_split (CHR ''_'') (''_setfromcsv_'' @ c # ds @ ''_'') = [[], ''setfromcsv'', c # ds, []]"
proof -
  have "CHR ''_'' \<notin> set (c # ds)"
    using assms by (auto simp: list_all_iff dest: is_alpha_not_underscore is_digit_not_underscore)
  then have "str_split (CHR ''_'') ((c # ds) @ CHR ''_'' # []) = (c # ds) # str_split (CHR ''_'') []"
    by (rule str_split_field)
  then show ?thesis by simp
qed

lemma char_upper_digit: "is_digit d \<Longrightarrow> char_upper d = d"
  by (simp add: char_upper_def char_class_defs)

lemma str_upper_digits: "list_all is_digit ds \<Longrightarrow> str_upper ds = ds"
  by (induction ds) (simp_all add: str_upper_def char_upper_digit)

lemma letter_is_alpha: "(i::nat) < 26 \<Longrightarrow> c = char_of (65 + i) \<or> c = char_of (97 + i) \<Longrightarrow> is_alpha c"
  by (auto simp: char_class_defs)

lemma letter_column:
  "(i::nat) < 26 \<Longrightarrow> c = char_of (65 + i) \<or> c = char_of (97 + i) \<Longrightarrow>
   int (of_char (char_upper (char_upper c))) - 65 = int i"
  by (auto simp: char_upper_def char_class_defs)


lemma is_digit_char_of: "d < 10 \<Longrightarrow> is_digit (char_of (48 + d :: nat))"
  by (simp add: is_digit_def)

lemma digits_value_snoc:
  "digits_value (s @ [c]) = 10 * digits_value s + ((of_char c :: nat) - 48)"
  by (simp add: digits_value_def)

lemma digits_value_zeros: "digits_value (replicate k (CHR ''0'') @ s) = digits_value s"
  by (induction k) (simp_all add: digits_value_def)

declare decimal.simps [simp del]

lemma decimal_digits: "list_all is_digit (decimal n)"
proof (induction n rule: decimal.induct)
  case (1 n)
  then show ?case
    by (subst decimal.simps) (simp add: is_digit_char_of)
qed

lemma decimal_nonempty: "decimal n \<noteq> []"
  by (subst decimal.simps) simp

lemma digits_value_decimal: "digits_value (decimal n) = n"
proof (induction n rule: decimal.induct)
  case (1 n)
  show ?case
  proof (cases "n < 10")
    case True
    then show ?thesis
      by (subst decimal.simps) (simp add: digits_value_def)
  next
    case False
    with 1 have "digits_value (decimal (n div 10)) = n div 10" by simp
    with False show ?thesis
      by (subst decimal.simps) (simp add: digits_value_snoc)
  qed
qed

text \<open>
  Every string of digits is a decimal numeral after any number of zeros, and the number
  that \<open>int\<close> reads from it is the number of the numeral.
\<close>

lemma zeros_digits: "list_all is_digit (replicate k (CHR ''0''))"
  by (induction k) (simp_all add: is_digit_def)

lemma char_of_48: "char_of (48::nat) = CHR ''0''"
  by code_simp

lemma numeral_digits:
  "replicate k (CHR ''0'') @ decimal n \<noteq> [] \<and>
   list_all is_digit (replicate k (CHR ''0'') @ decimal n) \<and>
   digits_value (replicate k (CHR ''0'') @ decimal n) = n"
  by (simp add: decimal_nonempty decimal_digits zeros_digits digits_value_zeros
      digits_value_decimal)

lemma digits_are_numerals:
  "s \<noteq> [] \<Longrightarrow> list_all is_digit s \<Longrightarrow>
   \<exists>k. s = replicate k (CHR ''0'') @ decimal (digits_value s)"
proof (induction s rule: rev_induct)
  case Nil
  then show ?case by simp
next
  case (snoc c t)
  from snoc.prems have c: "is_digit c" and t: "list_all is_digit t"
    by simp_all
  define d where "d = (of_char c :: nat) - 48"
  from c have d: "d < 10" and cd: "c = char_of (48 + d)"
    by (auto simp: d_def is_digit_def)
  have dec_d: "decimal d = [c]"
    using d cd by (subst decimal.simps) simp
  have val: "digits_value (t @ [c]) = 10 * digits_value t + d"
    by (simp add: digits_value_snoc d_def)
  show ?case
  proof (cases "t = []")
    case True
    then have "t @ [c] = replicate 0 (CHR ''0'') @ decimal (digits_value (t @ [c]))"
      using dec_d by (simp add: digits_value_def d_def)
    then show ?thesis by blast
  next
    case False
    with snoc.IH t obtain k where k: "t = replicate k (CHR ''0'') @ decimal (digits_value t)"
      by blast
    show ?thesis
    proof (cases "digits_value t = 0")
      case True
      have "decimal 0 = ''0''"
        by (subst decimal.simps) (simp add: char_of_48)
      with k True have "t = replicate (Suc k) (CHR ''0'')"
        by (simp add: replicate_append_same)
      then have "t @ [c] = replicate (Suc k) (CHR ''0'') @ decimal (digits_value (t @ [c]))"
        using val True dec_d by simp
      then show ?thesis by blast
    next
      case False
      then have "decimal (10 * digits_value t + d) = decimal (digits_value t) @ [c]"
        using d cd by (subst decimal.simps) simp
      with k val have "t @ [c] = replicate k (CHR ''0'') @ decimal (digits_value (t @ [c]))"
        by simp
      then show ?thesis by blast
    qed
  qed
qed

lemma cell_address_tableref:
  assumes "(i::nat) < 26" "c = char_of (65 + i) \<or> c = char_of (97 + i)"
    and "ds = replicate k (CHR ''0'') @ decimal n" "length ds \<le> 4300"
  shows "cell_address (str_upper (c # ds)) = Inr (int n - 1, int i)"
proof -
  have ds: "ds \<noteq> []" "list_all is_digit ds" "digits_value ds = n"
    using numeral_digits [of k n] assms(3) by simp_all
  have "str_upper (c # ds) = char_upper c # ds"
    using ds(2) str_upper_digits [of ds] by (simp add: str_upper_def)
  moreover have "int (of_char (char_upper (char_upper c))) - 65 = int i"
    using assms(1,2) by (rule letter_column)
  ultimately show ?thesis
    using ds assms(4) by (simp add: cell_address_def py_int_def int_max_str_digits_def)
qed

text \<open>A row number of more than 4300 digits is no address: \<open>int\<close> raises \<open>ValueError\<close>.\<close>

lemma cell_address_long:
  "4300 < length ds \<Longrightarrow> cell_address (c # ds) = Inl ValueError"
  by (simp add: cell_address_def py_int_def int_max_str_digits_def)

text \<open>
  What \<open>df.iat\<close> gives at the address of row number \<open>n\<close> (counted from 1) and column
  \<open>i\<close> (counted from 0). Row number 0 is the position \<open>-1\<close>, the last row.
\<close>

lemma df_iat_address:
  "df_iat df (int n - 1) (int i) =
     (if ncols df \<le> i then Inl IndexError
      else if 2 ^ 63 < n then Inl OverflowError
      else if 1 \<le> n \<and> n \<le> nrows df then Inr (cell_at df (n - 1) i)
      else if n = 0 \<and> 0 < nrows df then Inr (cell_at df (nrows df - 1) i)
      else Inl IndexError)"
proof -
  have big: "(2 ^ 63 \<le> int n - 1) = (2 ^ 63 < n)"
  proof -
    have "(2 ^ 63 \<le> int n - 1) = (int (2 ^ 63) < int n)"
      by simp
    then show ?thesis
      by (simp only: of_nat_less_iff)
  qed
  have small: "\<not> int n - 1 < - (2 ^ 63)"
    by simp
  show ?thesis
  proof (cases "n = 0")
    case True
    then show ?thesis
      by (auto simp: df_iat_def Let_def nat_diff_distrib')
  next
    case False
    then have "nat (int n - 1) = n - 1" and "\<not> int n - 1 < 0" and "(int n - 1 < int m) = (n \<le> m)" for m
      by auto
    with False big show ?thesis
      by (simp add: df_iat_def Let_def)
  qed
qed

text \<open>
  C5. For the file name \<open>_setfromcsv_<letter><digits>_\<close>, where the letter is the
  \<open>i\<close>-th letter of the alphabet in either case (\<open>A\<close> and \<open>a\<close> are number 0) and the
  digits are the numeral of the number \<open>n\<close>, possibly after zeros, and no more than the
  4300 that \<open>int\<close> reads: the scanner reports this marker, and the cell reference built
  from it has the column \<open>i\<close> and the row \<open>n - 1\<close>. When the table has no column
  \<open>i\<close>, the conversion prints the error line and returns \<open>None\<close>. Otherwise, with a
  row number above \<open>2^63\<close>, \<open>OverflowError\<close> leaves the conversion; with a row number
  between 1 and the number of rows of the table, the conversion returns the cell that
  the table holds in row \<open>n - 1\<close> and column \<open>i\<close> (counted from 0); with the row
  number 0 it returns the cell of the last row; with any other row number it prints the
  error line and returns \<open>None\<close>.
\<close>

theorem C5_table_address:
  assumes "(i::nat) < 26" and "c = char_of (65 + i) \<or> c = char_of (97 + i)"
    and "ds = replicate k (CHR ''0'') @ decimal n" and "length ds \<le> 4300"
    and "pd_read_csv env csv_file = Inr df"
  shows "check_targets (''_setfromcsv_'' @ c # ds @ ''_'') target_files
           = Some (''_setfromcsv_'' @ c # ds @ ''_'') \<and>
         cell_address (str_upper (c # ds)) = Inr (int n - 1, int i) \<and>
         set_path_based_on_file env drive file_path (''_setfromcsv_'' @ c # ds @ ''_'') csv_file
           = (if ncols df \<le> i then ([ErrorReading csv_file (str_upper (c # ds))], Inr None)
              else if 2 ^ 63 < n then ([], Inl OverflowError)
              else if 1 \<le> n \<and> n \<le> nrows df then ([], Inr (Some (cell_at df (n - 1) i)))
              else if n = 0 \<and> 0 < nrows df then ([], Inr (Some (cell_at df (nrows df - 1) i)))
              else ([ErrorReading csv_file (str_upper (c # ds))], Inr None))"
proof -
  have ds: "ds \<noteq> []" "list_all is_digit ds"
    using numeral_digits [of k n] assms(3) by simp_all
  have alpha: "is_alpha c"
    using assms(1,2) by (rule letter_is_alpha)
  have found: "check_targets (''_setfromcsv_'' @ c # ds @ ''_'') target_files
      = Some (''_setfromcsv_'' @ c # ds @ ''_'')"
    using setpath_not_in_tableref [OF alpha ds(2)] setthispath_not_in_tableref [OF alpha ds(2)]
      re_search_tableref [OF alpha ds]
    by (simp add: check_targets_target_files)
  have addr: "cell_address (str_upper (c # ds)) = Inr (int n - 1, int i)"
    using assms(1-4) by (rule cell_address_tableref)
  have split: "str_split (CHR ''_'') (''_setfromcsv_'' @ c # ds @ ''_'') = [[], ''setfromcsv'', c # ds, []]"
    using alpha ds(2) by (rule str_split_tableref)
  have conv: "set_path_based_on_file env drive file_path (''_setfromcsv_'' @ c # ds @ ''_'') csv_file
      = read_path_from_csv env csv_file (str_upper (c # ds))"
    using split by (simp add: set_path_based_on_file_def)
  have "read_path_from_csv env csv_file (str_upper (c # ds))
      = (if ncols df \<le> i then ([ErrorReading csv_file (str_upper (c # ds))], Inr None)
         else if 2 ^ 63 < n then ([], Inl OverflowError)
         else if 1 \<le> n \<and> n \<le> nrows df then ([], Inr (Some (cell_at df (n - 1) i)))
         else if n = 0 \<and> 0 < nrows df then ([], Inr (Some (cell_at df (nrows df - 1) i)))
         else ([ErrorReading csv_file (str_upper (c # ds))], Inr None))"
    using assms(5) addr
    by (simp add: read_path_from_csv_def df_iat_address)
  with found addr conv show ?thesis by simp
qed

lemma char_of_66: "char_of (66::nat) = CHR ''B''"
  by code_simp

lemma char_of_67: "char_of (67::nat) = CHR ''C''"
  by code_simp

lemma char_of_98: "char_of (98::nat) = CHR ''b''"
  by code_simp

lemma decimal_5: "decimal 5 = ''5''"
  by code_simp

lemma decimal_12: "decimal 12 = ''12''"
  by code_simp

text \<open>
  The example of C5: \<open>_setfromcsv_b5_\<close> addresses row index 4 and column index 1, and with
  \<open>/data/archive\<close> in that cell the conversion returns \<open>/data/archive\<close>. In the same way
  \<open>_setfromcsv_C012_\<close> addresses row index 11 and column index 2.
\<close>

theorem C5_table_address_witness:
  "check_targets ''_setfromcsv_b5_'' target_files = Some ''_setfromcsv_b5_'' \<and>
   cell_address ''B5'' = Inr (4, 1) \<and>
   cell_at c5_table 4 1 = PStr ''/data/archive'' \<and>
   set_path_based_on_file c5_env ''/media'' ''/media/_setfromcsv_b5_'' ''_setfromcsv_b5_'' ''paths.csv''
     = ([], Inr (Some (PStr ''/data/archive''))) \<and>
   check_targets ''_setfromcsv_C012_'' target_files = Some ''_setfromcsv_C012_'' \<and>
   cell_address ''C012'' = Inr (11, 2) \<and>
   set_path_based_on_file c5_env ''/media'' ''/media/_setfromcsv_C012_'' ''_setfromcsv_C012_'' ''paths.csv''
     = ([], Inr (Some (PStr ''/data/twelve'')))"
proof -
  have csv: "pd_read_csv c5_env ''paths.csv'' = Inr c5_table"
    by (simp add: c5_env_def linux_env_def)
  have table: "nrows c5_table = 20 \<and> ncols c5_table = 4 \<and>
      cell_at c5_table 4 1 = PStr ''/data/archive'' \<and> cell_at c5_table 11 2 = PStr ''/data/twelve''"
    by (simp add: c5_table_def)
  have b: "CHR ''b'' = char_of (65 + (1::nat)) \<or> CHR ''b'' = char_of (97 + (1::nat))"
    by (simp add: char_of_98)
  have five: "''5'' = replicate 0 (CHR ''0'') @ decimal 5"
    by (simp add: decimal_5)
  have "length ''5'' \<le> 4300"
    by simp
  from C5_table_address [of 1 "CHR ''b''" "''5''" 0 5 c5_env "''paths.csv''" c5_table "''/media''"
      "''/media/_setfromcsv_b5_''", OF _ b five this csv] table
  have first: "check_targets ''_setfromcsv_b5_'' target_files = Some ''_setfromcsv_b5_'' \<and>
      cell_address ''B5'' = Inr (4, 1) \<and>
      set_path_based_on_file c5_env ''/media'' ''/media/_setfromcsv_b5_'' ''_setfromcsv_b5_'' ''paths.csv''
        = ([], Inr (Some (PStr ''/data/archive'')))"
    by (simp add: str_upper_def char_upper_def is_lower_def char_of_66)
  have C: "CHR ''C'' = char_of (65 + (2::nat)) \<or> CHR ''C'' = char_of (97 + (2::nat))"
    by (simp add: char_of_67)
  have twelve: "''012'' = replicate 1 (CHR ''0'') @ decimal 12"
    by (simp add: decimal_12)
  have "length ''012'' \<le> 4300"
    by simp
  from C5_table_address [of 2 "CHR ''C''" "''012''" 1 12 c5_env "''paths.csv''" c5_table "''/media''"
      "''/media/_setfromcsv_C012_''", OF _ C twelve this csv] table
  have second: "check_targets ''_setfromcsv_C012_'' target_files = Some ''_setfromcsv_C012_'' \<and>
      cell_address ''C012'' = Inr (11, 2) \<and>
      set_path_based_on_file c5_env ''/media'' ''/media/_setfromcsv_C012_'' ''_setfromcsv_C012_'' ''paths.csv''
        = ([], Inr (Some (PStr ''/data/twelve'')))"
    by (simp add: str_upper_def char_upper_def is_lower_def)
  from first second table show ?thesis by simp
qed

text \<open>The same example through \<open>choose_path\<close>.\<close>

lemma c5_choose_path:
  "choose_path c5_env ''paths.csv''
     = ([Searching ''/media'', Found ''_setfromcsv_b5_'' ''/media/_setfromcsv_b5_''],
        Inr (Some (PStr ''/data/archive'')))"
  by (simp add: choose_path_def non_system_drives_def get_available_drives_def c5_env_def
      linux_env_def is_system_drive_def try_drive_def search_for_setpath_file_def
      target_files_def re_match_here_def char_class_defs os_path_join_def posix_join_def
      set_path_based_on_file_def read_path_from_csv_def cell_address_def py_int_def
      int_max_str_digits_def digits_value_def str_upper_def char_upper_def char_of_66
      df_iat_def c5_table_def)

text \<open>
  A row number above \<open>2^63\<close>: \<open>OverflowError\<close> leaves \<open>read_path_from_csv\<close>, whose
  \<open>except\<close> clause does not name it.
\<close>

lemma read_path_overflow:
  "pd_read_csv env csv_file = Inr df \<Longrightarrow> 0 < ncols df \<Longrightarrow>
   read_path_from_csv env csv_file ''A9223372036854775809'' = ([], Inl OverflowError)"
  by (simp add: read_path_from_csv_def cell_address_def py_int_def int_max_str_digits_def
      digits_value_def is_digit_def char_upper_def is_lower_def df_iat_def Let_def)

section \<open>The recent list\<close>

lemma slice_to_5: "slice_to 5 xs = take 5 xs"
  by (simp add: slice_to_def)

lemma save_recent_eq:
  "save_recent env rf p 5
     = expand env p # take 4 (filter (\<lambda>q. q \<noteq> expand env p) (load_recent env rf))"
  by (simp add: save_recent_def slice_to_5 Let_def take_Cons')

lemma count_list_absent: "x \<notin> set xs \<Longrightarrow> count_list xs x = 0"
  by (induction xs) auto

lemma save_recent_count:
  "count_list (save_recent env rf p 5) (expand env p) = 1"
proof -
  have "expand env p \<notin> set (take 4 (filter (\<lambda>q. q \<noteq> expand env p) (load_recent env rf)))"
    by (auto dest: in_set_takeD)
  then show ?thesis
    by (simp add: save_recent_eq count_list_absent)
qed

lemma take_4_of_5: "length xs = 5 \<Longrightarrow> take 4 xs = butlast xs"
  by (simp add: butlast_conv_take)

lemma str_isdigit_digits: "s \<noteq> [] \<Longrightarrow> list_all is_digit s \<Longrightarrow> str_isdigit s"
  by (simp add: str_isdigit_def list_all_iff)

lemma digits_not_q: "list_all is_digit choice \<Longrightarrow> choice \<noteq> ''q'' \<and> choice \<noteq> ''b''"
  by (auto simp: is_digit_def)

lemma navigate_step_1: "navigate_step env rf p h ''1'' = UsedFolder p (save_recent env rf p 5)"
  by (simp add: navigate_step_def str_isdigit_def py_int_def int_max_str_digits_def
      is_digit_def digits_value_def)

text \<open>
  C9 (as amended). \<open>save_recent\<close>, which the "use this folder" action calls with the
  chosen path \<open>p\<close>, writes a list that starts with \<open>expand p\<close>, the normalised form of
  \<open>p\<close>, holds it exactly once, also when the same path is added a second time, and has
  at most five entries; when five entries are loaded and \<open>expand p\<close> is not among them,
  it replaces the last of them. The first element is \<open>p\<close> itself when \<open>expand\<close> leaves
  \<open>p\<close> as it is.
\<close>

theorem C9_recent_list:
  "hd (save_recent env rf p 5) = expand env p \<and>
   count_list (save_recent env rf p 5) (expand env p) = 1 \<and>
   count_list (save_recent env (RecentList (map JStr (save_recent env rf p 5))) p 5) (expand env p) = 1 \<and>
   length (save_recent env rf p 5) \<le> 5 \<and>
   (expand env p = p \<longrightarrow> hd (save_recent env rf p 5) = p) \<and>
   navigate_step env rf p h ''1'' = UsedFolder p (save_recent env rf p 5) \<and>
   (length (load_recent env rf) = 5 \<and> expand env p \<notin> set (load_recent env rf) \<longrightarrow>
      save_recent env rf p 5 = expand env p # butlast (load_recent env rf))"
proof -
  have "length (load_recent env rf) = 5 \<and> expand env p \<notin> set (load_recent env rf) \<longrightarrow>
      save_recent env rf p 5 = expand env p # butlast (load_recent env rf)"
  proof
    assume a: "length (load_recent env rf) = 5 \<and> expand env p \<notin> set (load_recent env rf)"
    then have "filter (\<lambda>q. q \<noteq> expand env p) (load_recent env rf) = load_recent env rf"
      by (auto intro: filter_True)
    with a show "save_recent env rf p 5 = expand env p # butlast (load_recent env rf)"
      by (simp add: save_recent_eq take_4_of_5)
  qed
  moreover have "length (save_recent env rf p 5) \<le> 5"
    by (simp add: save_recent_eq)
  moreover have "navigate_step env rf p h ''1'' = UsedFolder p (save_recent env rf p 5)"
    by (rule navigate_step_1)
  ultimately show ?thesis
    by (simp add: save_recent_count) (simp add: save_recent_eq)
qed

theorem C9_recent_list_witness:
  "save_recent c9_env c9_recent ''/f'' 5 = [''/f'', ''/a'', ''/b'', ''/c'', ''/d''] \<and>
   save_recent c9_env c9_recent ''/c'' 5 = [''/c'', ''/a'', ''/b'', ''/d'', ''/e'']"
proof -
  have "load_recent c9_env c9_recent = [''/a'', ''/b'', ''/c'', ''/d'', ''/e'']"
    by (simp add: c9_env_def c9_recent_def linux_env_def)
  with C9_recent_list [of c9_env c9_recent "''/f''"]
  have "save_recent c9_env c9_recent ''/f'' 5 = [''/f'', ''/a'', ''/b'', ''/c'', ''/d'']"
    by (simp add: c9_env_def linux_env_def)
  moreover have "save_recent c9_env c9_recent ''/c'' 5 = [''/c'', ''/a'', ''/b'', ''/d'', ''/e'']"
    by (simp add: save_recent_def c9_env_def c9_recent_def linux_env_def slice_to_def)
  ultimately show ?thesis by simp
qed

text \<open>
  C9 (as stated) fails: browsing from \<open>/data\<close> into its subfolder \<open>$HOME\<close> and using
  that folder returns the path \<open>/data/$HOME\<close> and writes the list \<open>['/data/root']\<close>,
  whose first element is not the chosen path.
\<close>

theorem C9_counterexample:
  "list_subfolders c9_home_env ''/data'' = [''$HOME''] \<and>
   navigate_folder c9_home_env NoFile ''/data'' [''2'', ''1'']
     = UsedFolder ''/data/$HOME'' [''/data/root''] \<and>
   save_recent c9_home_env NoFile ''/data/$HOME'' 5 = [''/data/root'']"
  by (simp add: navigate_folder_def navigate_step_def list_subfolders_def c9_home_env_def
      linux_env_def os_path_join_def posix_join_def str_isdigit_def py_int_def
      int_max_str_digits_def is_digit_def digits_value_def save_recent_def slice_to_def)

section \<open>Browsing into a subfolder and back\<close>

text \<open>
  An answer of more than 4300 digits ends \<open>navigate_folder\<close> with the \<open>ValueError\<close> that
  \<open>int(choice)\<close> raises.
\<close>

lemma navigate_step_long_answer:
  assumes "list_all is_digit choice" and "4300 < length choice"
  shows "navigate_step env rf c h choice = Crashed ValueError"
proof -
  from assms(2) have "choice \<noteq> []" by auto
  with assms show ?thesis
    using digits_not_q [of choice] str_isdigit_digits [of choice]
    by (simp add: navigate_step_def py_int_def int_max_str_digits_def)
qed

text \<open>So does an answer of digits that are not all decimal, such as a superscript two.\<close>

lemma navigate_step_superscript:
  "navigate_step env rf c h [CHR 0xB2] = Crashed ValueError"
  by (simp add: navigate_step_def str_isdigit_def is_superscript_digit_def is_digit_def
      py_int_def)

text \<open>
  C10. In a round of \<open>navigate_folder\<close> with the current folder \<open>c\<close> and the history \<open>h\<close>,
  the answer that selects the subfolder with index \<open>i\<close> pushes \<open>c\<close> and enters the
  subfolder, and the answer \<open>b\<close> right after it restores \<open>c\<close> and \<open>h\<close>; with an empty
  history the answer \<open>b\<close> changes nothing. The answer that selects the subfolder with
  index \<open>i\<close> is the number \<open>i + 2\<close> of the menu: its decimal numeral, possibly after
  zeros, of no more than the 4300 digits that \<open>int\<close> reads.
\<close>

theorem C10_select_then_go_back:
  "(i < length (list_subfolders env c) \<and>
    choice = replicate k (CHR ''0'') @ decimal (i + 2) \<and> length choice \<le> 4300 \<longrightarrow>
      navigate_step env rf c h choice
        = Browsing (os_path_join (platform_system env) c (list_subfolders env c ! i)) (h @ [c]) \<and>
      navigate_step env rf' (os_path_join (platform_system env) c (list_subfolders env c ! i)) (h @ [c]) ''b''
        = Browsing c h) \<and>
   navigate_step env rf c [] ''b'' = Browsing c []"
proof -
  have pop: "navigate_step env rf' p (h @ [c]) ''b'' = Browsing c h" for p
    by (simp add: navigate_step_def)
  have noop: "navigate_step env rf c [] ''b'' = Browsing c []"
    by (simp add: navigate_step_def str_isdigit_def is_digit_def is_superscript_digit_def)
  have "navigate_step env rf c h choice
        = Browsing (os_path_join (platform_system env) c (list_subfolders env c ! i)) (h @ [c])"
    if i: "i < length (list_subfolders env c)"
      and choice: "choice = replicate k (CHR ''0'') @ decimal (i + 2)"
      and len: "length choice \<le> 4300"
  proof -
    have d: "choice \<noteq> []" "list_all is_digit choice" "digits_value choice = i + 2"
      using numeral_digits [of k "i + 2"] choice by simp_all
    then have "py_int choice = Inr (int i + 2)"
      using len by (simp add: py_int_def int_max_str_digits_def)
    with d i show ?thesis
      using digits_not_q [of choice] str_isdigit_digits [of choice]
      by (simp add: navigate_step_def Let_def)
  qed
  with pop noop show ?thesis by blast
qed

lemma decimal_3: "decimal 3 = ''3''"
  by code_simp

theorem C10_select_then_go_back_witness:
  "navigate_step c10_env NoFile ''/home'' [] ''3'' = Browsing ''/home/bob'' [''/home''] \<and>
   navigate_step c10_env NoFile ''/home/bob'' [''/home''] ''b'' = Browsing ''/home'' [] \<and>
   navigate_step c10_env NoFile ''/home'' [] ''003'' = Browsing ''/home/bob'' [''/home''] \<and>
   navigate_step c10_env NoFile ''/home'' [] ''b'' = Browsing ''/home'' []"
proof -
  have subs: "list_subfolders c10_env ''/home'' = [''ann'', ''bob'']"
    by (simp add: list_subfolders_def c10_env_def linux_env_def os_path_join_def posix_join_def)
  have pf: "platform_system c10_env = Linux"
    by (simp add: c10_env_def linux_env_def)
  have i: "1 < length (list_subfolders c10_env ''/home'')"
    by (simp add: subs)
  have n: "(1::nat) + 2 = 3"
    by simp
  have three: "''3'' = replicate 0 (CHR ''0'') @ decimal (1 + 2)"
    unfolding n decimal_3 by simp
  have zeros: "''003'' = replicate 2 (CHR ''0'') @ decimal (1 + 2)"
    unfolding n decimal_3 by (simp add: numeral_2_eq_2)
  have "length ''3'' \<le> 4300"
    by simp
  with i three have "1 < length (list_subfolders c10_env ''/home'') \<and>
      ''3'' = replicate 0 (CHR ''0'') @ decimal (1 + 2) \<and> length ''3'' \<le> 4300"
    by (intro conjI)
  from C10_select_then_go_back [of 1 c10_env "''/home''" "''3''" 0 NoFile "[]" NoFile,
      THEN conjunct1, rule_format, OF this]
  have first: "navigate_step c10_env NoFile ''/home'' [] ''3'' = Browsing ''/home/bob'' [''/home''] \<and>
      navigate_step c10_env NoFile ''/home/bob'' [''/home''] ''b'' = Browsing ''/home'' []"
    by (simp add: subs pf os_path_join_def posix_join_def)
  have "length ''003'' \<le> 4300"
    by simp
  with i zeros have "1 < length (list_subfolders c10_env ''/home'') \<and>
      ''003'' = replicate 2 (CHR ''0'') @ decimal (1 + 2) \<and> length ''003'' \<le> 4300"
    by (intro conjI)
  from C10_select_then_go_back [of 1 c10_env "''/home''" "''003''" 2 NoFile "[]" NoFile,
      THEN conjunct1, rule_format, OF this]
  have second: "navigate_step c10_env NoFile ''/home'' [] ''003'' = Browsing ''/home/bob'' [''/home'']"
    by (simp add: subs pf os_path_join_def posix_join_def)
  from C10_select_then_go_back [of 1 c10_env "''/home''" "''3''" 0 NoFile "[]" NoFile,
      THEN conjunct2]
  have "navigate_step c10_env NoFile ''/home'' [] ''b'' = Browsing ''/home'' []" .
  with first second show ?thesis by simp
qed

text \<open>A whole run: into \<open>bob\<close>, back, into \<open>ann\<close>, use this folder.\<close>

lemma c10_navigate_folder:
  "navigate_folder c10_env NoFile ''/home'' [''3'', ''b'', ''2'', ''1'']
     = UsedFolder ''/home/ann'' [''/home/ann'']"
  by (simp add: navigate_folder_def navigate_step_def list_subfolders_def c10_env_def
      linux_env_def os_path_join_def posix_join_def str_isdigit_def py_int_def
      int_max_str_digits_def is_digit_def digits_value_def save_recent_def slice_to_def)

section \<open>Enumerating the drives\<close>

text \<open>
  \<open>get_external_drives\<close> of simple\_path\_manager.py leaves out a mount point whose
  listing raises \<open>PermissionError\<close>, whatever the other mount points are.
\<close>

lemma scan_mounts_skips_denied:
  "os_listdir env root = Inl PermissionError \<Longrightarrow>
   scan_mounts env (pre @ root # post) = scan_mounts env (pre @ post)"
  by (induction pre) (auto split: sum.splits)

text \<open>
  C8. On Linux, with \<open>/media\<close> present and its listing refused, \<open>get_external_drives\<close> of
  path\_setter.py raises \<open>PermissionError\<close>, while \<open>get_external_drives\<close> of
  simple\_path\_manager.py returns the drives under \<open>/mnt\<close> and \<open>get_available_drives\<close>
  of autoPath\_v1.0.py, which lists nothing, returns its fixed mount points.
\<close>

theorem C8_path_setter_raises:
  "os_path_exists c8_env ''/media'' \<and> os_listdir c8_env ''/media'' = Inl PermissionError \<and>
   get_external_drives_path_setter c8_env = Inl PermissionError \<and>
   get_external_drives c8_env = [''/mnt/usb''] \<and>
   get_available_drives c8_env = [''/media'', ''/mnt'', ''/'']"
  by (simp add: get_external_drives_path_setter_def list_mount_def get_external_drives_def
      get_available_drives_def c8_env_def linux_env_def os_path_join_def posix_join_def)

section \<open>Directories that cannot be listed\<close>

text \<open>
  A subdirectory that cannot be listed adds nothing to the walk: no visit and no match.
  The walk of its siblings is the walk of the same directory without it.
\<close>

lemma walk_dir_unlistable: "\<not> listable d \<Longrightarrow> walk_dir pf No_handler prune check root d = ([], Done None)"
  by (cases d) simp

lemma walk_subs_skip_unlistable:
  "\<not> listable locked \<Longrightarrow>
   walk_subs pf No_handler prune check root (pre @ locked # post) = walk_subs pf No_handler prune check root (pre @ post)"
  by (induction pre) (simp_all add: walk_dir_unlistable split: prod.splits)

lemma walk_dir_skip_unlistable:
  "\<not> listable locked \<Longrightarrow>
   walk_dir pf No_handler prune check root (Dir n ok files (pre @ locked # post))
     = walk_dir pf No_handler prune check root (Dir n ok files (pre @ post))"
  by (simp add: walk_subs_skip_unlistable cong: option.case_cong if_cong)

lemma search_skips_unlistable:
  assumes "\<not> listable locked"
    and "walk_tree env drive = Some (Dir n True files (pre @ locked # post))"
    and "walk_tree env' drive = Some (Dir n True files (pre @ post))"
    and "platform_system env' = platform_system env"
  shows "search_for_setpath_file env drive ts m = search_for_setpath_file env' drive ts m"
  using assms(2-4) walk_dir_skip_unlistable [OF assms(1)]
  by (simp add: search_for_setpath_file_def del: walk_dir.simps)

lemma search_unlistable_root:
  "walk_tree env drive = Some locked \<Longrightarrow> \<not> listable locked \<Longrightarrow>
   search_for_setpath_file env drive ts m = \<lparr>printed = [], visited = [], found = None\<rparr>"
  by (simp add: search_for_setpath_file_def walk_dir_unlistable)

lemma walk_never_denied:
  "snd (walk_dir pf No_handler prune check p t) \<noteq> Denied"
proof (induction t arbitrary: p)
  case (Dir n ok files subs)
  have subs: "snd (walk_subs pf No_handler prune check p ds) \<noteq> Denied"
    if "set ds \<subseteq> set subs" for ds
    using that
  proof (induction ds)
    case Nil
    show ?case by simp
  next
    case (Cons d ds)
    then have "snd (walk_dir pf No_handler prune check (os_path_join pf p (dname d)) d) \<noteq> Denied"
      by (intro Dir.IH) simp
    moreover from Cons have "snd (walk_subs pf No_handler prune check p ds) \<noteq> Denied"
      by simp
    ultimately show ?case
      by (auto split: prod.splits walked.splits option.splits)
  qed
  have "snd (walk_subs pf No_handler prune check p subs) \<noteq> Denied"
    by (rule subs) simp
  then show ?case
    by (auto split: prod.splits option.splits)
qed

text \<open>
  Without \<open>onerror\<close> no \<open>PermissionError\<close> leaves \<open>os.walk\<close>, so the \<open>except\<close> clause of
  \<open>search_for_setpath_file\<close> is never entered and the function prints nothing.
\<close>

lemma walk_not_denied: "walk_dir pf No_handler prune check p t = (vs, Denied) \<Longrightarrow> False"
  using walk_never_denied [of pf prune check p t] by simp

lemma printed_search [simp]: "printed (search_for_setpath_file env d ts m) = []"
  by (auto simp: search_for_setpath_file_def Let_def dest: walk_not_denied
      split: option.splits prod.splits walked.splits)

text \<open>
  C7. With \<open>locked\<close> refusing its listing, the search of \<open>/media\<close> goes on to the
  sibling \<open>usb\<close> and returns the marker found there; the directory \<open>locked\<close> is not
  visited, and neither \<open>search_for_setpath_file\<close> nor \<open>choose_path\<close> prints a line about
  the refused listing.
\<close>

theorem C7_denied_subtree_not_reported:
  "search_for_setpath_file c7_env ''/media'' target_files 2
     = \<lparr>printed = [],
        visited = [Examined ''/media'', Examined ''/media/usb''],
        found = Some (''/media/usb/_setpath_'', ''_setpath_'')\<rparr> \<and>
   choose_path c7_env ''paths.csv''
     = ([Searching ''/media'', Found ''_setpath_'' ''/media/usb/_setpath_''],
        Inr (Some (PStr ''/media'')))"
  by (simp add: choose_path_def non_system_drives_def get_available_drives_def try_drive_def
      set_path_based_on_file_def search_for_setpath_file_def c7_env_def linux_env_def
      c7_media_def is_system_drive_def os_path_join_def posix_join_def target_files_def
      re_match_here_def)

section \<open>The order of the drives\<close>

lemma char_of_65: "char_of (65::nat) = CHR ''A''"
  by code_simp

lemma scanned_append [simp]: "scanned (xs @ ys) = scanned xs @ scanned ys"
  by (induction xs rule: scanned.induct) simp_all

lemma scanned_read_path [simp]: "scanned (fst (read_path_from_csv env csv_file cell)) = []"
  by (simp add: read_path_from_csv_def Let_def split: sum.splits prod.splits)

lemma scanned_set_path [simp]:
  "scanned (fst (set_path_based_on_file env d fp tf csv_file)) = []"
  by (simp add: set_path_based_on_file_def split: list.splits)

lemma try_drive_settles:
  "snd (try_drive env csv_file a d) = Inr None \<longleftrightarrow> \<not> settles env csv_file d"
  by (auto simp: try_drive_def settles_def Let_def split: option.splits prod.splits sum.splits)

lemma scanned_try_drive:
  "a = Searching d \<or> a = SearchingSystem d \<Longrightarrow> scanned (fst (try_drive env csv_file a d)) = [d]"
proof -
  assume a: "a = Searching d \<or> a = SearchingSystem d"
  have "scanned evs = []" if "set_path_based_on_file env d fp tf csv_file = (evs, out)" for evs out fp tf
    using scanned_set_path [of env d fp tf csv_file] that by simp
  with a show ?thesis
    by (auto simp: try_drive_def Let_def split: option.splits prod.splits sum.splits)
qed

lemma search_drives_scanned:
  "scanned (fst (search_drives env csv_file ds))
     = takeWhile (\<lambda>d. \<not> settles env csv_file d) ds
       @ take 1 (dropWhile (\<lambda>d. \<not> settles env csv_file d) ds)"
proof (induction ds)
  case Nil
  show ?case by simp
next
  case (Cons d ds)
  obtain evs out where t: "try_drive env csv_file (Searching d) d = (evs, out)"
    by (cases "try_drive env csv_file (Searching d) d")
  have s: "scanned evs = [d]"
    using scanned_try_drive [of "Searching d" d env csv_file] t by simp
  have o: "out = Inr None \<longleftrightarrow> \<not> settles env csv_file d"
    using try_drive_settles [of env csv_file "Searching d" d] t by simp
  show ?case
  proof (cases "settles env csv_file d")
    case True
    with o have "out \<noteq> Inr None" by simp
    with t s True show ?thesis
      by (auto split: sum.splits option.splits)
  next
    case False
    with o have "out = Inr None" by simp
    with t s False Cons.IH show ?thesis
      by (auto split: prod.splits)
  qed
qed

lemma search_drives_none:
  "snd (search_drives env csv_file ds) = Inr None \<longleftrightarrow> (\<forall>d\<in>set ds. \<not> settles env csv_file d)"
proof (induction ds)
  case Nil
  show ?case by simp
next
  case (Cons d ds)
  obtain evs out where t: "try_drive env csv_file (Searching d) d = (evs, out)"
    by (cases "try_drive env csv_file (Searching d) d")
  have o: "out = Inr None \<longleftrightarrow> \<not> settles env csv_file d"
    using try_drive_settles [of env csv_file "Searching d" d] t by simp
  show ?case
  proof (cases "settles env csv_file d")
    case True
    with o have "out \<noteq> Inr None" by simp
    with t True show ?thesis
      by (auto split: sum.splits option.splits)
  next
    case False
    with o have "out = Inr None" by simp
    with t False Cons.IH show ?thesis
      by (auto split: prod.splits)
  qed
qed

lemma is_system_drive_nonempty: "is_system_drive pf d \<Longrightarrow> d \<noteq> []"
  by (auto simp: is_system_drive_def str_lower_def split: if_splits)

lemma system_drive_of_is_system:
  "system_drive_of env = Some sd \<Longrightarrow> is_system_drive (platform_system env) sd"
proof -
  assume a: "system_drive_of env = Some sd"
  define xs where "xs = filter (is_system_drive (platform_system env)) (get_available_drives env)"
  from a have "xs \<noteq> []" and "sd = last xs"
    by (auto simp: system_drive_of_def xs_def split: list.splits)
  then have "sd \<in> set xs" by simp
  then show ?thesis by (simp add: xs_def)
qed

lemma takeWhile_take1:
  "takeWhile P (xs @ [y]) @ take 1 (dropWhile P (xs @ [y]))
     = (if \<forall>x\<in>set xs. P x then xs @ [y] else takeWhile P xs @ take 1 (dropWhile P xs))"
  by (induction xs) auto

lemma takeWhile_all:
  "\<forall>x\<in>set xs. P x \<Longrightarrow> takeWhile P xs @ take 1 (dropWhile P xs) = xs"
  by (induction xs) auto

lemma takeWhile_some:
  "\<exists>x\<in>set xs. \<not> P x \<Longrightarrow>
   takeWhile P (xs @ ys) @ take 1 (dropWhile P (xs @ ys))
     = takeWhile P xs @ take 1 (dropWhile P xs)"
  by (induction xs) auto

text \<open>
  C3 (as amended). \<open>choose_path\<close> of autoPath\_v1.0.py takes the drives in the order
  \<open>search_order\<close>: the drives that are not the system drive in the order of the
  enumeration, then the system drive. It searches them one after the other and stops
  after the first drive that settles the call: a drive on which a marker is found whose
  conversion raises or returns a value that Python counts as true. Every drive before
  that one is searched and no drive after it; a drive with no marker, or with a marker
  whose conversion returns \<open>None\<close> or a value that Python counts as false, is followed
  by the next drive. \<open>choose_path\<close> of autoPath\_v1.py does the same with the drives in
  the plain order of the enumeration.
\<close>

theorem C3_scan_order:
  "scanned (fst (choose_path env csv_file))
     = takeWhile (\<lambda>d. \<not> settles env csv_file d) (search_order env)
       @ take 1 (dropWhile (\<lambda>d. \<not> settles env csv_file d) (search_order env)) \<and>
   scanned (fst (choose_path_v1 env csv_file))
     = takeWhile (\<lambda>d. \<not> settles env csv_file d) (get_available_drives env)
       @ take 1 (dropWhile (\<lambda>d. \<not> settles env csv_file d) (get_available_drives env))"
proof -
  let ?P = "\<lambda>d. \<not> settles env csv_file d"
  let ?ns = "non_system_drives env"
  obtain evs out where sd: "search_drives env csv_file ?ns = (evs, out)"
    by (cases "search_drives env csv_file ?ns")
  have evs: "scanned evs = takeWhile ?P ?ns @ take 1 (dropWhile ?P ?ns)"
    using search_drives_scanned [of env csv_file ?ns] sd by simp
  have out: "out = Inr None \<longleftrightarrow> (\<forall>d\<in>set ?ns. ?P d)"
    using search_drives_none [of env csv_file ?ns] sd by simp
  have v10: "scanned (fst (choose_path env csv_file))
     = takeWhile ?P (search_order env) @ take 1 (dropWhile ?P (search_order env))"
  proof (cases "\<forall>d\<in>set ?ns. ?P d")
    case all: True
    with out have none: "out = Inr None" by simp
    from all have evs': "scanned evs = ?ns"
      using evs takeWhile_all [of ?ns ?P] by simp
    show ?thesis
    proof (cases "system_drive_of env")
      case None
      with sd none evs' all takeWhile_all [of ?ns ?P] show ?thesis
        by (simp add: choose_path_def search_order_def)
    next
      case (Some s)
      then have "s \<noteq> []"
        by (auto dest: system_drive_of_is_system is_system_drive_nonempty)
      moreover have "scanned (fst (try_drive env csv_file (SearchingSystem s) s)) = [s]"
        by (rule scanned_try_drive) simp
      ultimately show ?thesis
        using Some sd none evs' all
        by (auto simp: choose_path_def search_order_def takeWhile_take1 split: prod.splits)
    qed
  next
    case some: False
    with out have "out \<noteq> Inr None" by simp
    then have "choose_path env csv_file = (evs, out)"
      using sd by (auto simp: choose_path_def split: sum.splits option.splits)
    moreover have "takeWhile ?P (search_order env) @ take 1 (dropWhile ?P (search_order env))
        = takeWhile ?P ?ns @ take 1 (dropWhile ?P ?ns)"
    proof (cases "system_drive_of env")
      case None
      then show ?thesis by (simp add: search_order_def)
    next
      case (Some s)
      from some have "\<exists>d\<in>set ?ns. \<not> ?P d" by simp
      then have "takeWhile ?P (?ns @ [s]) @ take 1 (dropWhile ?P (?ns @ [s]))
          = takeWhile ?P ?ns @ take 1 (dropWhile ?P ?ns)"
        by (rule takeWhile_some)
      with Some show ?thesis by (simp add: search_order_def)
    qed
    ultimately show ?thesis
      using evs by simp
  qed
  have "scanned (fst (choose_path_v1 env csv_file))
     = takeWhile ?P (get_available_drives env) @ take 1 (dropWhile ?P (get_available_drives env))"
    by (simp add: choose_path_v1_def search_drives_scanned)
  with v10 show ?thesis by simp
qed

text \<open>The drive \<open>/media\<close> of the example of C5 settles the call, and no other drive is searched.\<close>

theorem C3_scan_order_witness:
  "search_order c5_env = [''/media'', ''/mnt'', ''/''] \<and>
   scanned (fst (choose_path c5_env ''paths.csv'')) = [''/media'']"
proof -
  have order: "search_order c5_env = [''/media'', ''/mnt'', ''/'']"
    by (simp add: search_order_def non_system_drives_def system_drive_of_def
        get_available_drives_def is_system_drive_def c5_env_def linux_env_def)
  have "settles c5_env ''paths.csv'' ''/media''"
    by (simp add: settles_def search_for_setpath_file_def c5_env_def linux_env_def
        is_system_drive_def target_files_def re_match_here_def char_class_defs
        os_path_join_def posix_join_def set_path_based_on_file_def read_path_from_csv_def
        cell_address_def py_int_def int_max_str_digits_def digits_value_def str_upper_def char_upper_def
        char_of_66 df_iat_def c5_table_def)
  with C3_scan_order [of c5_env "''paths.csv''"] order show ?thesis
    by simp
qed

text \<open>
  C3 (as stated) fails: a marker is found on \<open>/media\<close>, the first drive, and still
  \<open>/mnt\<close> and the system drive are searched, because the marker refers to a table that
  is not there.
\<close>

theorem C3_counterexample:
  "found (search_for_setpath_file c3_env ''/media'' target_files 2)
     = Some (''/media/_setfromcsv_a1_'', ''_setfromcsv_a1_'') \<and>
   choose_path c3_env ''paths.csv''
     = ([Searching ''/media'', Found ''_setfromcsv_a1_'' ''/media/_setfromcsv_a1_'',
         ErrorReading ''paths.csv'' ''A1'',
         ErrorDetermining ''/media/_setfromcsv_a1_'' ''_setfromcsv_a1_'',
         Searching ''/mnt'', SearchingSystem ''/'', Found ''_setpath_'' ''/_setpath_''],
        Inr (Some (PStr ''/''))) \<and>
   scanned (fst (choose_path c3_env ''paths.csv'')) = [''/media'', ''/mnt'', ''/'']"
  by (simp add: choose_path_def non_system_drives_def system_drive_of_def
      get_available_drives_def c3_env_def linux_env_def is_system_drive_def try_drive_def
      search_for_setpath_file_def depth_of_def os_sep_def
      target_files_def re_match_here_def char_class_defs os_path_join_def posix_join_def
      set_path_based_on_file_def read_path_from_csv_def cell_address_def py_int_def
      int_max_str_digits_def digits_value_def str_upper_def char_upper_def char_of_65)

section \<open>What \<open>choose_path\<close> returns\<close>

lemma try_drive_conversion:
  "snd (try_drive env csv_file a d)
     = (if settles env csv_file d then conversion_of env csv_file d else Inr None)"
  by (auto simp: try_drive_def settles_def conversion_of_def Let_def
      split: option.splits prod.splits sum.splits)

lemma search_drives_conversion:
  "snd (search_drives env csv_file ds)
     = (case find (settles env csv_file) ds of
          None \<Rightarrow> Inr None
        | Some d \<Rightarrow> conversion_of env csv_file d)"
proof (induction ds)
  case Nil
  show ?case by simp
next
  case (Cons d ds)
  obtain evs out where t: "try_drive env csv_file (Searching d) d = (evs, out)"
    by (cases "try_drive env csv_file (Searching d) d")
  have c: "out = (if settles env csv_file d then conversion_of env csv_file d else Inr None)"
    using try_drive_conversion [of env csv_file "Searching d" d] t by simp
  have o: "out = Inr None \<longleftrightarrow> \<not> settles env csv_file d"
    using try_drive_settles [of env csv_file "Searching d" d] t by simp
  show ?case
  proof (cases "settles env csv_file d")
    case True
    with o have "out \<noteq> Inr None" by simp
    with t c True show ?thesis
      by (auto split: sum.splits option.splits)
  next
    case False
    with o have "out = Inr None" by simp
    with t False Cons.IH show ?thesis
      by (auto split: prod.splits)
  qed
qed

lemma find_append_case:
  "find P (xs @ ys) = (case find P xs of None \<Rightarrow> find P ys | Some x \<Rightarrow> Some x)"
  by (induction xs) auto

lemma find_none_iff: "find P xs = None \<longleftrightarrow> (\<forall>x\<in>set xs. \<not> P x)"
  by (induction xs) auto

text \<open>
  C6 (as amended). \<open>choose_path\<close> does not validate the path it produces. It ends as the
  conversion of the marker of the first drive, in the order of the search, that settles
  the call: it returns the value of this conversion as it is (or raises what the
  conversion raises), and it returns \<open>None\<close> when no drive settles the call. The
  conversion of the marker \<open>_setpath_\<close> is the searched drive and that of
  \<open>_setthispath_\<close> the directory name of the file found.
\<close>

theorem C6_no_validation:
  "snd (choose_path env csv_file)
     = (case find (settles env csv_file) (search_order env) of
          None \<Rightarrow> Inr None
        | Some d \<Rightarrow> conversion_of env csv_file d) \<and>
   snd (set_path_based_on_file env drive file_path ''_setpath_'' csv_file)
     = Inr (Some (PStr drive)) \<and>
   snd (set_path_based_on_file env drive file_path ''_setthispath_'' csv_file)
     = Inr (Some (PStr (os_path_dirname (platform_system env) file_path)))"
proof -
  let ?P = "settles env csv_file"
  let ?ns = "non_system_drives env"
  obtain evs out where sd: "search_drives env csv_file ?ns = (evs, out)"
    by (cases "search_drives env csv_file ?ns")
  have out: "out = (case find ?P ?ns of None \<Rightarrow> Inr None | Some d \<Rightarrow> conversion_of env csv_file d)"
    using search_drives_conversion [of env csv_file ?ns] sd by simp
  have none: "out = Inr None \<longleftrightarrow> find ?P ?ns = None"
    using search_drives_none [of env csv_file ?ns] sd by (simp add: find_none_iff)
  have "snd (choose_path env csv_file)
     = (case find ?P (search_order env) of
          None \<Rightarrow> Inr None
        | Some d \<Rightarrow> conversion_of env csv_file d)"
  proof (cases "find ?P ?ns")
    case None
    with none have o: "out = Inr None" by simp
    show ?thesis
    proof (cases "system_drive_of env")
      case no_system: None
      with sd o None show ?thesis
        by (simp add: choose_path_def search_order_def)
    next
      case (Some s)
      then have "s \<noteq> []"
        by (auto dest: system_drive_of_is_system is_system_drive_nonempty)
      with Some sd o None show ?thesis
        using try_drive_conversion [of env csv_file "SearchingSystem s" s]
        by (auto simp: choose_path_def search_order_def find_append_case split: prod.splits)
    qed
  next
    case (Some d)
    with none have "out \<noteq> Inr None" by simp
    then have "choose_path env csv_file = (evs, out)"
      using sd by (auto simp: choose_path_def split: sum.splits option.splits)
    with out Some show ?thesis
      by (simp add: search_order_def find_append_case)
  qed
  then show ?thesis
    by (simp add: set_path_based_on_file_def)
qed

text \<open>
  The example of C6: \<open>/media\<close> is the first drive that settles the call, and what
  \<open>choose_path\<close> returns is the conversion of its marker, the content of cell A1.
\<close>

theorem C6_no_validation_witness:
  "find (settles c6_env ''paths.csv'') (search_order c6_env) = Some ''/media'' \<and>
   conversion_of c6_env ''paths.csv'' ''/media'' = Inr (Some (PStr ''/data/gone'')) \<and>
   snd (choose_path c6_env ''paths.csv'') = Inr (Some (PStr ''/data/gone''))"
proof -
  have order: "search_order c6_env = [''/media'', ''/mnt'', ''/'']"
    by (simp add: search_order_def non_system_drives_def system_drive_of_def
        get_available_drives_def is_system_drive_def c6_env_def linux_env_def)
  have found: "found (search_for_setpath_file c6_env ''/media'' target_files 2)
     = Some (''/media/_setfromcsv_a1_'', ''_setfromcsv_a1_'')"
    by (simp add: c6_env_def linux_env_def is_system_drive_def
      search_for_setpath_file_def target_files_def re_match_here_def char_class_defs
      os_path_join_def posix_join_def)
  have conv: "snd (set_path_based_on_file c6_env ''/media'' ''/media/_setfromcsv_a1_'' ''_setfromcsv_a1_'' ''paths.csv'')
     = Inr (Some (PStr ''/data/gone''))"
    by (simp add: c6_env_def linux_env_def set_path_based_on_file_def read_path_from_csv_def
      cell_address_def py_int_def int_max_str_digits_def digits_value_def str_upper_def
      char_upper_def char_class_defs char_of_65 df_iat_def)
  from found conv have settles: "settles c6_env ''paths.csv'' ''/media''"
    by (simp add: settles_def)
  from found conv have conversion: "conversion_of c6_env ''paths.csv'' ''/media'' = Inr (Some (PStr ''/data/gone''))"
    by (simp add: conversion_of_def)
  from order settles have first: "find (settles c6_env ''paths.csv'') (search_order c6_env) = Some ''/media''"
    by simp
  from C6_no_validation [of c6_env "''paths.csv''", THEN conjunct1] first conversion
  have "snd (choose_path c6_env ''paths.csv'') = Inr (Some (PStr ''/data/gone''))"
    by simp
  with first conversion show ?thesis by simp
qed

text \<open>
  C6 (as stated) fails: the marker on \<open>/media\<close> refers to cell A1 of the table, the cell
  names \<open>/data/gone\<close>, and \<open>choose_path\<close> returns this string although no such directory
  exists.
\<close>

theorem C6_counterexample:
  "choose_path c6_env ''paths.csv''
     = ([Searching ''/media'', Found ''_setfromcsv_a1_'' ''/media/_setfromcsv_a1_''],
        Inr (Some (PStr ''/data/gone''))) \<and>
   \<not> os_path_isdir c6_env ''/data/gone'' \<and> \<not> os_path_exists c6_env ''/data/gone''"
  by (simp add: choose_path_def non_system_drives_def system_drive_of_def
      get_available_drives_def c6_env_def linux_env_def is_system_drive_def try_drive_def
      search_for_setpath_file_def target_files_def re_match_here_def char_class_defs
      os_path_join_def posix_join_def set_path_based_on_file_def read_path_from_csv_def
      cell_address_def py_int_def int_max_str_digits_def digits_value_def str_upper_def char_upper_def char_of_65
      df_iat_def)

section \<open>Paths of the directories of a walk\<close>

lemma nt_splitdrive_append: "nt_splitdrive p = (d, r) \<Longrightarrow> d @ r = p"
  by (auto simp: nt_splitdrive_def split: if_splits)

lemma nt_splitdrive_name: "wf_name Windows n \<Longrightarrow> nt_splitdrive n = ([], n)"
  by (auto simp: nt_splitdrive_def wf_name_def list_all_iff)

lemma wf_name_hd: "wf_name pf n \<Longrightarrow> n \<noteq> [] \<and> hd n \<noteq> CHR ''/'' \<and> (pf = Windows \<longrightarrow> hd n \<noteq> backslash)"
  by (cases n) (auto simp: wf_name_def)

lemma wf_name_no_sep: "wf_name pf n \<Longrightarrow> count_list n (os_sep pf) = 0"
  by (auto simp: wf_name_def os_sep_def list_all_iff count_list_0_iff)

lemma posix_join_name:
  "wf_name pf n \<Longrightarrow> posix_join p n = (if p = [] \<or> last p = CHR ''/'' then p @ n else p @ CHR ''/'' # n)"
  using wf_name_hd [of pf n] by (cases n) (auto simp: posix_join_def)

lemma nt_join_name:
  assumes "wf_name Windows n" "nt_splitdrive p = (d, r)"
  shows "nt_join p n = (if r \<noteq> [] \<and> \<not> nt_is_sep (last r) then p @ backslash # n else p @ n)"
proof -
  have n: "nt_splitdrive n = ([], n)"
    using assms(1) by (rule nt_splitdrive_name)
  have h: "n \<noteq> [] \<and> \<not> nt_is_sep (hd n)"
    using wf_name_hd [OF assms(1)] by (simp add: nt_is_sep_def)
  have p: "d @ r = p"
    using assms(2) by (rule nt_splitdrive_append)
  show ?thesis
    using n h p assms(2) by (auto simp: nt_join_def)
qed

lemma join_cases:
  assumes "wf_name pf n"
  shows "os_path_join pf p n = p @ n \<or> os_path_join pf p n = p @ os_sep pf # n"
proof (cases "pf = Windows")
  case True
  obtain d r where "nt_splitdrive p = (d, r)"
    by (cases "nt_splitdrive p")
  with assms True show ?thesis
    using nt_join_name [of n p d r] by (auto simp: os_path_join_def os_sep_def)
next
  case False
  with assms show ?thesis
    using posix_join_name [of pf n p] by (auto simp: os_path_join_def os_sep_def)
qed

lemma depth_of_join:
  assumes "wf_name pf n" "length drive \<le> length p"
  shows "depth_of pf drive (os_path_join pf p n) \<le> Suc (depth_of pf drive p)"
    and "length drive \<le> length (os_path_join pf p n)"
  using join_cases [OF assms(1), of p] assms(2) wf_name_no_sep [OF assms(1)]
  by (auto simp: depth_of_def)

section \<open>The depth of the visited directories\<close>

lemma walk_dir_within:
  assumes pr: "\<And>r. \<not> prune r \<Longrightarrow> int (depth_of pf drive r) + 1 \<le> B"
  shows "wf_tree pf t \<Longrightarrow> length drive \<le> length p \<Longrightarrow> int (depth_of pf drive p) \<le> B \<Longrightarrow>
    \<forall>v\<in>set (fst (walk_dir pf No_handler prune check p t)). within pf drive prune B v"
proof (induction t arbitrary: p)
  case (Dir n ok files subs)
  have subs: "\<forall>v\<in>set (fst (walk_subs pf No_handler prune check p ds)). within pf drive prune B v"
    if "set ds \<subseteq> set subs" "wf_subs pf ds" "\<not> prune p" for ds
    using that
  proof (induction ds)
    case Nil
    show ?case by simp
  next
    case (Cons d ds)
    let ?q = "os_path_join pf p (dname d)"
    from Cons.prems have d: "d \<in> set subs" and wf: "wf_name pf (dname d)" "wf_tree pf d"
      by auto
    have len: "length drive \<le> length ?q"
      using wf(1) Dir.prems(2) by (rule depth_of_join(2))
    have "depth_of pf drive ?q \<le> Suc (depth_of pf drive p)"
      using wf(1) Dir.prems(2) by (rule depth_of_join(1))
    with pr [OF Cons.prems(3)] have "int (depth_of pf drive ?q) \<le> B"
      by simp
    with Dir.IH [OF d wf(2) len]
    have here: "\<forall>v\<in>set (fst (walk_dir pf No_handler prune check ?q d)). within pf drive prune B v"
      by simp
    from Cons.prems Cons.IH
    have rest: "\<forall>v\<in>set (fst (walk_subs pf No_handler prune check p ds)). within pf drive prune B v"
      by simp
    from here rest show ?case
      by (auto split: prod.splits option.splits walked.splits)
  qed
  show ?case
  proof (cases "ok \<and> \<not> prune p \<and> check p files = None")
    case True
    with Dir.prems(1) have "\<forall>v\<in>set (fst (walk_subs pf No_handler prune check p subs)). within pf drive prune B v"
      by (intro subs) simp_all
    with True Dir.prems(3) show ?thesis
      by (auto simp: within_def split: prod.splits)
  next
    case False
    with Dir.prems(3) show ?thesis
      by (auto simp: within_def split: option.splits)
  qed
qed

text \<open>
  C4 (as amended). In autoSet\_path.py, whose test is \<open>depth > max_depth\<close>, every
  directory that the walk visits lies at most \<open>max_depth + 1\<close> separators below the scan
  root, and files are examined only in directories at most \<open>max_depth\<close> below it: a
  directory at depth \<open>max_depth + 1\<close> is visited and pruned there. In autoPath\_v1.0.py,
  whose test is \<open>depth >= max_system_depth\<close> on the system drive, every visited directory
  of the system drive lies at most \<open>max_system_depth\<close> below the root and files are
  examined only at a smaller depth.
\<close>

theorem C4_depth_of_visits:
  "(walk_tree env drive = Some t \<and> wf_tree (platform_system env) t \<and> 0 \<le> max_depth \<longrightarrow>
      (\<forall>v\<in>set (visited (search_for_setpath_file_autoSet env drive ts max_depth)).
         int (depth_of (platform_system env) drive (visit_path v)) \<le> max_depth + 1 \<and>
         (is_examined v \<longrightarrow> int (depth_of (platform_system env) drive (visit_path v)) \<le> max_depth))) \<and>
   (walk_tree env drive = Some t \<and> wf_tree (platform_system env) t \<and> 0 \<le> max_system_depth \<and>
    is_system_drive (platform_system env) drive \<longrightarrow>
      (\<forall>v\<in>set (visited (search_for_setpath_file env drive ts max_system_depth)).
         int (depth_of (platform_system env) drive (visit_path v)) \<le> max_system_depth \<and>
         (is_examined v \<longrightarrow> int (depth_of (platform_system env) drive (visit_path v)) < max_system_depth)))"
proof -
  let ?pf = "platform_system env"
  have root: "depth_of ?pf drive drive = 0"
    by (simp add: depth_of_def)
  have a: "\<forall>v\<in>set (visited (search_for_setpath_file_autoSet env drive ts max_depth)).
         int (depth_of ?pf drive (visit_path v)) \<le> max_depth + 1 \<and>
         (is_examined v \<longrightarrow> int (depth_of ?pf drive (visit_path v)) \<le> max_depth)"
    if t: "walk_tree env drive = Some t" and wf: "wf_tree ?pf t" and nn: "0 \<le> max_depth"
  proof -
    let ?prune = "\<lambda>root. max_depth < int (depth_of ?pf drive root)"
    have "\<forall>v\<in>set (fst (walk_dir ?pf No_handler ?prune (\<lambda>root files. check_files_plain ?pf root files ts) drive t)).
        within ?pf drive ?prune (max_depth + 1) v"
      using wf nn root by (intro walk_dir_within) simp_all
    with t show ?thesis
      by (auto simp: search_for_setpath_file_autoSet_def within_def Let_def
          split: prod.splits walked.splits)
  qed
  have b: "\<forall>v\<in>set (visited (search_for_setpath_file env drive ts max_system_depth)).
         int (depth_of ?pf drive (visit_path v)) \<le> max_system_depth \<and>
         (is_examined v \<longrightarrow> int (depth_of ?pf drive (visit_path v)) < max_system_depth)"
    if t: "walk_tree env drive = Some t" and wf: "wf_tree ?pf t" and nn: "0 \<le> max_system_depth"
      and sys: "is_system_drive ?pf drive"
  proof -
    let ?prune = "\<lambda>root. is_system_drive ?pf drive \<and> max_system_depth \<le> int (depth_of ?pf drive root)"
    have "\<forall>v\<in>set (fst (walk_dir ?pf No_handler ?prune (\<lambda>root files. check_files ?pf root files ts) drive t)).
        within ?pf drive ?prune max_system_depth v"
      using wf nn root sys by (intro walk_dir_within) simp_all
    with t sys show ?thesis
      by (auto simp: search_for_setpath_file_def within_def Let_def
          split: prod.splits walked.splits)
  qed
  from a b show ?thesis by blast
qed

theorem C4_depth_of_visits_witness:
  "walk_tree c4_env ''/media'' = Some c4_media \<and> wf_tree Linux c4_media \<and>
   list_all (\<lambda>v. int (depth_of Linux ''/media'' (visit_path v)) \<le> 3 + 1)
     (visited (search_for_setpath_file_autoSet c4_env ''/media'' target_files 3)) \<and>
   walk_tree c4_env ''/'' = Some c4_root \<and> wf_tree Linux c4_root \<and>
   is_system_drive Linux ''/'' \<and>
   list_all (\<lambda>v. int (depth_of Linux ''/'' (visit_path v)) \<le> 2)
     (visited (search_for_setpath_file c4_env ''/'' target_files 2))"
proof -
  have pf: "platform_system c4_env = Linux"
    by (simp add: c4_env_def linux_env_def)
  have media: "walk_tree c4_env ''/media'' = Some c4_media" "wf_tree Linux c4_media"
    by (simp_all add: c4_env_def linux_env_def c4_media_def wf_name_def)
  have root: "walk_tree c4_env ''/'' = Some c4_root" "wf_tree Linux c4_root"
    "is_system_drive Linux ''/''"
    by (simp_all add: c4_env_def linux_env_def c4_root_def wf_name_def is_system_drive_def)
  from C4_depth_of_visits [of c4_env "''/media''" c4_media 3 target_files 2] pf media
  have "list_all (\<lambda>v. int (depth_of Linux ''/media'' (visit_path v)) \<le> 3 + 1)
     (visited (search_for_setpath_file_autoSet c4_env ''/media'' target_files 3))"
    by (simp add: list_all_iff)
  moreover
  from C4_depth_of_visits [of c4_env "''/''" c4_root 3 target_files 2] pf root
  have "list_all (\<lambda>v. int (depth_of Linux ''/'' (visit_path v)) \<le> 2)
     (visited (search_for_setpath_file c4_env ''/'' target_files 2))"
    by (simp add: list_all_iff)
  ultimately show ?thesis
    using media root by simp
qed

text \<open>
  C4 (as stated) fails: with the bound 3, the directory \<open>/media/a/b/c/d\<close>, four
  separators below the scan root \<open>/media\<close>, is visited.
\<close>

theorem C4_counterexample:
  "visited (search_for_setpath_file_autoSet c4_env ''/media'' target_files 3)
     = [Examined ''/media'', Examined ''/media/a'', Examined ''/media/a/b'',
        Examined ''/media/a/b/c'', Pruned ''/media/a/b/c/d''] \<and>
   depth_of Linux ''/media'' ''/media/a/b/c/d'' = 4 \<and>
   found (search_for_setpath_file_autoSet c4_env ''/media'' target_files 3) = None"
  by (simp add: search_for_setpath_file_autoSet_def c4_env_def linux_env_def c4_media_def
      depth_of_def os_sep_def os_path_join_def posix_join_def target_files_def)

text \<open>On the system drive with the bound 2 the last visited directory has depth 2.\<close>

lemma c4_system_drive_visits:
  "visited (search_for_setpath_file c4_env ''/'' target_files 2)
     = [Examined ''/'', Examined ''/a'', Examined ''/a/b'', Pruned ''/a/b/c''] \<and>
   depth_of Linux ''/'' ''/a/b/c'' = 2"
  by (simp add: search_for_setpath_file_def c4_env_def linux_env_def c4_root_def
      is_system_drive_def depth_of_def os_sep_def os_path_join_def posix_join_def
      target_files_def)

section \<open>The depth limit on the system drive\<close>

lemma check_files_none:
  "\<not> list_ex is_marker files \<Longrightarrow> check_files pf root files target_files = None"
  by (induction files) (auto simp: is_marker_def)

lemma no_markers_none:
  "marker_levels t = [] \<Longrightarrow>
   snd (walk_dir pf No_handler prune (\<lambda>root files. check_files pf root files target_files) p t) = Done None"
proof (induction t arbitrary: p)
  case (Dir n ok files subs)
  let ?check = "\<lambda>root files. check_files pf root files target_files"
  from Dir.prems have files: "\<not> list_ex is_marker files" and none: "marker_levels_subs subs = []"
    by (auto split: if_splits)
  have subs: "snd (walk_subs pf No_handler prune ?check p ds) = Done None"
    if "set ds \<subseteq> set subs" "marker_levels_subs ds = []" for ds
    using that
  proof (induction ds)
    case Nil
    show ?case by simp
  next
    case (Cons d ds)
    then have "snd (walk_dir pf No_handler prune ?check (os_path_join pf p (dname d)) d) = Done None"
      by (intro Dir.IH) auto
    moreover from Cons have "snd (walk_subs pf No_handler prune ?check p ds) = Done None"
      by auto
    ultimately show ?case
      by (auto split: prod.splits option.splits)
  qed
  from none have "snd (walk_subs pf No_handler prune ?check p subs) = Done None"
    by (intro subs) simp_all
  with files show ?case
    by (auto simp: check_files_none split: prod.splits)
qed

lemma is_lower_char_lower: "is_upper c \<Longrightarrow> is_lower (char_lower c)"
  by (simp add: char_lower_def is_upper_def is_lower_def)

lemma char_lower_eq: "char_lower c = x \<Longrightarrow> \<not> is_lower x \<Longrightarrow> c = x"
  using is_lower_char_lower [of c] by (cases "is_upper c") (auto simp: char_lower_def)

lemma windows_system_drive:
  assumes "is_system_drive Windows drive"
  shows "\<exists>x. drive = [x, CHR '':'', backslash]"
proof -
  from assms obtain a b c where d: "drive = [a, b, c]"
    and "char_lower b = CHR '':''" and "char_lower c = backslash"
    by (auto simp: is_system_drive_def str_lower_def)
  then have "b = CHR '':''" and "c = backslash"
    by (auto dest!: char_lower_eq simp: is_lower_def backslash_def)
  with d show ?thesis by simp
qed

lemma system_join:
  assumes sys: "is_system_drive pf drive" and n: "wf_name pf n"
    and s: "s = [] \<or> \<not> is_sep pf (last s)"
  shows "os_path_join pf (drive @ s) n = drive @ (if s = [] then n else s @ os_sep pf # n)"
proof (cases "pf = Windows")
  case True
  with sys obtain x where d: "drive = [x, CHR '':'', backslash]"
    using windows_system_drive by blast
  then have "nt_splitdrive (drive @ s) = ([x, CHR '':''], backslash # s)"
    by (simp add: nt_splitdrive_def)
  from nt_join_name [OF _ this, of n] n True s d show ?thesis
    by (auto simp: os_path_join_def os_sep_def is_sep_def nt_is_sep_def)
next
  case False
  with sys have "drive = ''/''"
    by (auto simp: is_system_drive_def split: if_splits)
  with False s posix_join_name [OF n, of "drive @ s"] show ?thesis
    by (auto simp: os_path_join_def os_sep_def is_sep_def)
qed

lemma wf_name_last: "wf_name pf n \<Longrightarrow> \<not> is_sep pf (last n)"
proof -
  assume a: "wf_name pf n"
  then have "n \<noteq> []" by (simp add: wf_name_def)
  then have "last n \<in> set n" by simp
  with a show ?thesis
    by (auto simp: wf_name_def is_sep_def list_all_iff)
qed

lemma system_walk_none:
  assumes sys: "is_system_drive pf drive"
  shows "wf_tree pf t \<Longrightarrow>
    (s = [] \<and> k = 0) \<or> (s \<noteq> [] \<and> \<not> is_sep pf (last s) \<and> k = Suc (count_list s (os_sep pf))) \<Longrightarrow>
    \<forall>l\<in>set (marker_levels t). 3 \<le> k + l \<Longrightarrow>
    snd (walk_dir pf No_handler (\<lambda>root. is_system_drive pf drive \<and> 2 \<le> int (depth_of pf drive root))
           (\<lambda>root files. check_files pf root files target_files) (drive @ s) t) = Done None"
proof (induction t arbitrary: s k)
  case (Dir n ok files subs)
  let ?prune = "\<lambda>root. is_system_drive pf drive \<and> 2 \<le> int (depth_of pf drive root)"
  let ?check = "\<lambda>root files. check_files pf root files target_files"
  have depth: "depth_of pf drive (drive @ s) = k - 1"
    using Dir.prems(2) by (auto simp: depth_of_def)
  show ?case
  proof (cases "ok \<and> \<not> ?prune (drive @ s)")
    case False
    then show ?thesis by auto
  next
    case True
    with sys depth have "\<not> 2 \<le> k - 1" by simp
    then have k: "k \<le> 2" by arith
    with Dir.prems(3) have files: "\<not> list_ex is_marker files"
      by (auto split: if_splits)
    have subs: "snd (walk_subs pf No_handler ?prune ?check (drive @ s) ds) = Done None"
      if "set ds \<subseteq> set subs" "wf_subs pf ds" "\<forall>l\<in>set (marker_levels_subs ds). 3 \<le> Suc k + l" for ds
      using that
    proof (induction ds)
      case Nil
      show ?case by simp
    next
      case (Cons d ds)
      define s' where "s' = (if s = [] then dname d else s @ os_sep pf # dname d)"
      from Cons.prems have d: "d \<in> set subs" and wf: "wf_name pf (dname d)" "wf_tree pf d"
        by auto
      have path: "os_path_join pf (drive @ s) (dname d) = drive @ s'"
        unfolding s'_def using sys wf(1) Dir.prems(2) by (intro system_join) auto
      have level: "(s' = [] \<and> Suc k = 0) \<or>
          (s' \<noteq> [] \<and> \<not> is_sep pf (last s') \<and> Suc k = Suc (count_list s' (os_sep pf)))"
        unfolding s'_def
        using Dir.prems(2) wf_name_last [OF wf(1)] wf_name_no_sep [OF wf(1)] wf(1)
        by (auto simp: wf_name_def)
      from Cons.prems(3) have "\<forall>l\<in>set (marker_levels d). 3 \<le> Suc k + l"
        by simp
      with Dir.IH [OF d wf(2) level]
      have here: "snd (walk_dir pf No_handler ?prune ?check (drive @ s') d) = Done None"
        by simp
      from Cons have rest: "snd (walk_subs pf No_handler ?prune ?check (drive @ s) ds) = Done None"
        by auto
      from here rest show ?case
        by (auto simp: path split: prod.splits option.splits)
    qed
    have below: "\<forall>l\<in>set (marker_levels_subs subs). 3 \<le> Suc k + l"
    proof
      fix l
      assume "l \<in> set (marker_levels_subs subs)"
      then have "Suc l \<in> set (marker_levels (Dir n ok files subs))" by simp
      with Dir.prems(3) have "3 \<le> k + Suc l" by blast
      then show "3 \<le> Suc k + l" by simp
    qed
    from Dir.prems(1) below have "snd (walk_subs pf No_handler ?prune ?check (drive @ s) subs) = Done None"
      by (intro subs) simp_all
    with True files show ?thesis
      by (auto simp: check_files_none split: prod.splits)
  qed
qed


lemma search_none_no_markers:
  "\<forall>t. walk_tree env d = Some t \<longrightarrow> marker_levels t = [] \<Longrightarrow>
   found (search_for_setpath_file env d target_files m) = None"
proof (cases "walk_tree env d")
  case None
  then show ?thesis by (simp add: search_for_setpath_file_def)
next
  case (Some t)
  assume "\<forall>t. walk_tree env d = Some t \<longrightarrow> marker_levels t = []"
  with Some have "marker_levels t = []" by simp
  then have "snd (walk_dir (platform_system env) No_handler
      (\<lambda>root. is_system_drive (platform_system env) d \<and> m \<le> int (depth_of (platform_system env) d root))
      (\<lambda>root files. check_files (platform_system env) root files target_files) d t) = Done None"
    by (rule no_markers_none)
  with Some show ?thesis
    by (auto simp: search_for_setpath_file_def Let_def split: prod.splits)
qed

lemma search_none_system:
  assumes "is_system_drive (platform_system env) d"
    and "\<forall>t. walk_tree env d = Some t \<longrightarrow>
       wf_tree (platform_system env) t \<and> (\<forall>l\<in>set (marker_levels t). 3 \<le> l)"
  shows "found (search_for_setpath_file env d target_files 2) = None"
proof (cases "walk_tree env d")
  case None
  then show ?thesis by (simp add: search_for_setpath_file_def)
next
  case (Some t)
  with assms(2) have "wf_tree (platform_system env) t" and "\<forall>l\<in>set (marker_levels t). 3 \<le> 0 + l"
    by auto
  with system_walk_none [OF assms(1), of t "[]" 0] Some show ?thesis
    by (auto simp: search_for_setpath_file_def Let_def split: prod.splits)
qed

lemma not_settles_none:
  "found (search_for_setpath_file env d target_files 2) = None \<Longrightarrow> \<not> settles env csv_file d"
  by (simp add: settles_def)

text \<open>
  C2. If no drive other than the system drive holds a marker file, and on the system
  drive every directory that holds one lies three or more levels below the root, then
  \<open>choose_path\<close> returns \<open>None\<close>.
\<close>

theorem C2_primary_depth_cap:
  assumes others: "\<forall>d\<in>set (non_system_drives env). \<forall>t. walk_tree env d = Some t \<longrightarrow> marker_levels t = []"
    and primary: "\<forall>d t. system_drive_of env = Some d \<and> walk_tree env d = Some t \<longrightarrow>
       wf_tree (platform_system env) t \<and> (\<forall>l\<in>set (marker_levels t). 3 \<le> l)"
  shows "snd (choose_path env csv_file) = Inr None"
proof -
  have "\<forall>d\<in>set (non_system_drives env). \<not> settles env csv_file d"
    using others by (auto intro!: not_settles_none search_none_no_markers)
  then have ns: "snd (search_drives env csv_file (non_system_drives env)) = Inr None"
    by (simp add: search_drives_none)
  show ?thesis
  proof (cases "system_drive_of env")
    case None
    with ns show ?thesis
      by (auto simp: choose_path_def split: prod.splits)
  next
    case (Some sd)
    then have "is_system_drive (platform_system env) sd"
      by (rule system_drive_of_is_system)
    moreover from primary Some have "\<forall>t. walk_tree env sd = Some t \<longrightarrow>
       wf_tree (platform_system env) t \<and> (\<forall>l\<in>set (marker_levels t). 3 \<le> l)"
      by simp
    ultimately have "found (search_for_setpath_file env sd target_files 2) = None"
      by (rule search_none_system)
    then have "\<not> settles env csv_file sd"
      by (rule not_settles_none)
    then have "snd (try_drive env csv_file (SearchingSystem sd) sd) = Inr None"
      by (simp add: try_drive_settles)
    with ns Some show ?thesis
      by (auto simp: choose_path_def split: prod.splits)
  qed
qed

theorem C2_primary_depth_cap_witness:
  "marker_levels c2_root = [3] \<and> marker_levels c2_media = [] \<and>
   system_drive_of c2_env = Some ''/'' \<and> non_system_drives c2_env = [''/media'', ''/mnt''] \<and>
   snd (choose_path c2_env ''paths.csv'') = Inr None"
proof -
  have marker: "is_marker ''_setpath_'' \<and> \<not> is_marker ''notes.txt'' \<and> \<not> is_marker ''readme.txt''"
    by (simp add: is_marker_def target_files_def re_match_here_def)
  have root: "marker_levels c2_root = [3]" and media: "marker_levels c2_media = []"
    using marker by (simp_all add: c2_root_def c2_media_def)
  have wf: "wf_tree Linux c2_root"
    by (simp add: c2_root_def wf_name_def)
  have sys: "system_drive_of c2_env = Some ''/''"
    and ns: "non_system_drives c2_env = [''/media'', ''/mnt'']"
    by (simp_all add: system_drive_of_def non_system_drives_def get_available_drives_def
        is_system_drive_def c2_env_def linux_env_def)
  have trees: "walk_tree c2_env ''/'' = Some c2_root" "walk_tree c2_env ''/media'' = Some c2_media"
    "walk_tree c2_env ''/mnt'' = None" "platform_system c2_env = Linux"
    by (simp_all add: c2_env_def linux_env_def)
  from C2_primary_depth_cap [of c2_env "''paths.csv''"] root media wf sys ns trees
  show ?thesis by simp
qed

text \<open>A marker two levels below the root of the system drive is found.\<close>

lemma c2_found_at_level_2:
  "found (search_for_setpath_file
      (linux_env [(''/'', Dir [] True [] [Dir ''home'' True [] [Dir ''ann'' True [''_setpath_''] []]])] [] [] [])
      ''/'' target_files 2)
     = Some (''/home/ann/_setpath_'', ''_setpath_'')"
  by (simp add: search_for_setpath_file_def linux_env_def is_system_drive_def depth_of_def
      os_sep_def os_path_join_def posix_join_def target_files_def)


end
